theory Spec2Isabelle
  imports Main "HOL-Library.Word" "HOL-Library.Sublist"
begin

section \<open>JavaScript strings\<close>

text \<open>
  A JavaScript string is a sequence of UTF-16 code units. String literals of the source
  that are plain ASCII are written \<open>str ''...''\<close>; the one literal that is not (the chat
  apology) is given by its code units.
\<close>

type_synonym code_unit = "16 word"
type_synonym jsstring = "code_unit list"

definition str :: "string \<Rightarrow> jsstring" where
  "str s = map of_char s"

text \<open>
  \<open>String.prototype.trim\<close> removes the code units of the ECMAScript productions
  WhiteSpace and LineTerminator from both ends.
\<close>

definition isWhiteSpace :: "code_unit \<Rightarrow> bool" where
  "isWhiteSpace c = (c \<in> set [0x9, 0xA, 0xB, 0xC, 0xD, 0x20, 0xA0, 0x1680,
     0x2000, 0x2001, 0x2002, 0x2003, 0x2004, 0x2005, 0x2006, 0x2007, 0x2008, 0x2009, 0x200A,
     0x2028, 0x2029, 0x202F, 0x205F, 0x3000, 0xFEFF])"

definition trim :: "jsstring \<Rightarrow> jsstring" where
  "trim s = rev (dropWhile isWhiteSpace (rev (dropWhile isWhiteSpace s)))"

text \<open>
  \<open>s.replace(/pat/g, rep)\<close> for a pattern without metacharacters: every occurrence of
  \<open>pat\<close>, found from left to right without overlap, is replaced by \<open>rep\<close>.
\<close>

function replaceAll :: "jsstring \<Rightarrow> jsstring \<Rightarrow> jsstring \<Rightarrow> jsstring" where
  "replaceAll pat rep s =
     (if pat = [] then s
      else case s of
        [] \<Rightarrow> []
      | c # cs \<Rightarrow>
          if prefix pat s then rep @ replaceAll pat rep (drop (length pat) s)
          else c # replaceAll pat rep cs)"
  by pat_completeness auto
termination
  by (relation "measure (\<lambda>(pat, rep, s). length s)") auto

text \<open>Decimal rendering of a non-negative integer inside a template literal.\<close>

fun toString :: "nat \<Rightarrow> jsstring" where
  "toString n =
     (if n < 10 then [of_nat (48 + n)]
      else toString (n div 10) @ [of_nat (48 + n mod 10)])"

section \<open>Data model (types.ts)\<close>

datatype Role = user | model

record ChatMessage =
  role :: Role
  message_text :: jsstring

record Source =
  uri :: jsstring
  title :: jsstring

record Section =
  heading :: jsstring
  content :: jsstring

record ResearchReport =
  report_title :: jsstring
  summary :: jsstring
  sections :: "Section list"

record ResearchPlanItem =
  english_question :: jsstring
  japanese_question :: jsstring

datatype ResearchStage = IDLE | PLANNING | SEARCHING | EVALUATING | SYNTHESIZING | COMPLETE | ERROR

text \<open>The shapes that geminiService.ts reads out of the model's answers.\<close>

record Evaluation =
  is_complete :: bool
  unanswered_questions :: "jsstring list"
  reasoning :: jsstring

record RefinedQuery =
  english_query :: jsstring
  japanese_query :: jsstring

text \<open>
  \<open>{ plan: ResearchPlanItem[] }\<close> and \<open>{ queries: ... }\<close>: the code tests the field for
  presence (\<open>!result.plan\<close>), so it is optional here. An empty array is present.
\<close>

record PlanResult =
  result_plan :: "ResearchPlanItem list option"

record QueriesResult =
  result_queries :: "RefinedQuery list option"

text \<open>
  What \<open>searchWithGrounding\<close> reads of a \<open>GenerateContentResponse\<close>: \<open>response.text\<close> and
  \<open>response.candidates?.[0]?.groundingMetadata?.groundingChunks\<close> (\<open>None\<close> when any link of
  that chain is missing), each chunk with an optional \<open>web\<close> whose \<open>uri\<close> and \<open>title\<close> are
  optional.
\<close>

record GroundingWeb =
  web_uri :: "jsstring option"
  web_title :: "jsstring option"

record GroundingChunk =
  web :: "GroundingWeb option"

record GenerateContentResponse =
  response_text :: jsstring
  groundingChunks :: "GroundingChunk list option"

section \<open>The remote model\<close>

text \<open>
  Every service function makes exactly one request \<open>ai.models.generateContent\<close>. A request
  is identified by the service that makes it and the arguments its prompt is built from.
  The client \<open>ai\<close> is represented by the list of requests made so far; the answer to a
  request may depend on how many were made before it, so the remote model is free to answer
  the same request differently each time. \<open>Inl e\<close> is a rejected promise (a thrown error
  with message \<open>e\<close>).

  \<open>JSON.parse\<close> followed by the cast \<open>as T\<close> is a parameter for each \<open>T\<close> the source
  uses; \<open>None\<close> stands for a \<open>SyntaxError\<close> and for the value \<open>null\<close>, which every caller
  treats alike.
\<close>

datatype call =
    PlanCall jsstring
  | SearchCall jsstring
  | EvaluateCall "ResearchPlanItem list" jsstring
  | RefineCall "jsstring list"
  | SynthesizeCall jsstring jsstring

record env =
  generateContent :: "nat \<Rightarrow> call \<Rightarrow> jsstring + GenerateContentResponse"
  JSON_parse_plan :: "jsstring \<Rightarrow> PlanResult option"
  JSON_parse_evaluation :: "jsstring \<Rightarrow> Evaluation option"
  JSON_parse_queries :: "jsstring \<Rightarrow> QueriesResult option"
  JSON_parse_report :: "jsstring \<Rightarrow> ResearchReport option"

definition ai_generateContent ::
  "env \<Rightarrow> call \<Rightarrow> call list \<Rightarrow> (jsstring + GenerateContentResponse) \<times> call list" where
  "ai_generateContent e c ai = (generateContent e (length ai) c, ai @ [c])"

section \<open>geminiService.ts\<close>

definition parseJson :: "(jsstring \<Rightarrow> 'a option) \<Rightarrow> jsstring \<Rightarrow> 'a option" where
  "parseJson JSON_parse jsonString =
     (let cleanedJson = trim (replaceAll (str ''```'') [] (replaceAll (str ''```json'') [] jsonString))
      in JSON_parse cleanedJson)"

definition generateResearchPlan ::
  "env \<Rightarrow> jsstring \<Rightarrow> call list \<Rightarrow> (jsstring + ResearchPlanItem list) \<times> call list" where
  "generateResearchPlan e topic ai =
     (let failed = str ''Failed to generate a research plan. The AI model may be temporarily unavailable.''
      in case ai_generateContent e (PlanCall topic) ai of
        (Inl err, ai') \<Rightarrow> (Inl failed, ai')
      | (Inr response, ai') \<Rightarrow>
          (case parseJson (JSON_parse_plan e) (response_text response) of
             None \<Rightarrow> (Inl failed, ai')
           | Some result \<Rightarrow>
               (case result_plan result of
                  None \<Rightarrow> (Inl failed, ai')
                | Some p \<Rightarrow> (Inr p, ai'))))"

text \<open>
  \<open>new Map(entries)\<close> keeps a key at the position of its first insertion and gives it the
  value of its last insertion; \<open>values()\<close> lists the values in that order.
\<close>

fun Map_set :: "('k \<times> 'v) list \<Rightarrow> 'k \<Rightarrow> 'v \<Rightarrow> ('k \<times> 'v) list" where
  "Map_set [] k v = [(k, v)]"
| "Map_set (p # ps) k v = (if fst p = k then (k, v) # ps else p # Map_set ps k v)"

definition new_Map :: "('k \<times> 'v) list \<Rightarrow> ('k \<times> 'v) list" where
  "new_Map entries = foldl (\<lambda>m (k, v). Map_set m k v) [] entries"

definition Map_values :: "('k \<times> 'v) list \<Rightarrow> 'v list" where
  "Map_values m = map snd m"

definition uniqueSources :: "Source list \<Rightarrow> Source list" where
  "uniqueSources ss = Map_values (new_Map (map (\<lambda>s. (uri s, s)) ss))"

text \<open>
  \<open>x || d\<close> for an optional string \<open>x\<close>: \<open>d\<close> when \<open>x\<close> is \<open>undefined\<close> or empty.
\<close>

definition or_default :: "jsstring option \<Rightarrow> jsstring \<Rightarrow> jsstring" where
  "or_default x d = (case x of None \<Rightarrow> d | Some s \<Rightarrow> if s = [] then d else s)"

definition chunk_to_source :: "GroundingChunk \<Rightarrow> Source" where
  "chunk_to_source chunk =
     \<lparr> uri = or_default (Option.bind (web chunk) web_uri) [],
       title = or_default (Option.bind (web chunk) web_title) (str ''Untitled Source'') \<rparr>"

definition searchWithGrounding ::
  "env \<Rightarrow> jsstring \<Rightarrow> call list \<Rightarrow> (jsstring + jsstring \<times> Source list) \<times> call list" where
  "searchWithGrounding e query ai =
     (case ai_generateContent e (SearchCall query) ai of
        (Inl err, ai') \<Rightarrow>
          (Inl (str ''Failed to search the web for: \"'' @ query @ str ''\".''), ai')
      | (Inr response, ai') \<Rightarrow>
          (let text = response_text response;
               rawChunks = (case groundingChunks response of None \<Rightarrow> [] | Some cs \<Rightarrow> cs);
               sources = filter (\<lambda>source. uri source \<noteq> []) (map chunk_to_source rawChunks)
           in (Inr (text, uniqueSources sources), ai')))"

definition evaluateCompleteness ::
  "env \<Rightarrow> ResearchPlanItem list \<Rightarrow> jsstring \<Rightarrow> call list \<Rightarrow> (jsstring + Evaluation) \<times> call list" where
  "evaluateCompleteness e plan searchResults ai =
     (let failed = str ''AI failed to evaluate the completeness of the search results.''
      in case ai_generateContent e (EvaluateCall plan searchResults) ai of
        (Inl err, ai') \<Rightarrow> (Inl failed, ai')
      | (Inr response, ai') \<Rightarrow>
          (case parseJson (JSON_parse_evaluation e) (response_text response) of
             None \<Rightarrow> (Inl failed, ai')
           | Some result \<Rightarrow> (Inr result, ai')))"

definition refineSearchQueries ::
  "env \<Rightarrow> jsstring list \<Rightarrow> call list \<Rightarrow> (jsstring + RefinedQuery list) \<times> call list" where
  "refineSearchQueries e unansweredQuestions ai =
     (let failed = str ''AI failed to generate new search queries.''
      in case ai_generateContent e (RefineCall unansweredQuestions) ai of
        (Inl err, ai') \<Rightarrow> (Inl failed, ai')
      | (Inr response, ai') \<Rightarrow>
          (case parseJson (JSON_parse_queries e) (response_text response) of
             None \<Rightarrow> (Inl failed, ai')
           | Some result \<Rightarrow>
               (case result_queries result of
                  None \<Rightarrow> (Inl failed, ai')
                | Some qs \<Rightarrow> (Inr qs, ai'))))"

definition synthesizeReport ::
  "env \<Rightarrow> jsstring \<Rightarrow> jsstring \<Rightarrow> call list \<Rightarrow> (jsstring + ResearchReport) \<times> call list" where
  "synthesizeReport e topic searchResults ai =
     (let failed = str ''The AI failed to synthesize the final report. This may be due to the complexity of the topic or an issue with the underlying data.''
      in case ai_generateContent e (SynthesizeCall topic searchResults) ai of
        (Inl err, ai') \<Rightarrow> (Inl failed, ai')
      | (Inr response, ai') \<Rightarrow>
          (case parseJson (JSON_parse_report e) (response_text response) of
             None \<Rightarrow> (Inl failed, ai')
           | Some result \<Rightarrow> (Inr result, ai')))"

section \<open>DeepSeekAgent (component state and the research run)\<close>

text \<open>
  The component's state hooks and refs, and the client \<open>ai\<close> of the service module (the
  requests made so far). A state setter is a field update. Inside one run the code reads
  \<open>topic\<close> only through the closure of the render that started it, so the run takes
  that value as a parameter.
\<close>

record agent_state =
  topic :: jsstring
  stage :: ResearchStage
  report :: "ResearchReport option"
  sources :: "Source list"
  error :: "jsstring option"
  plan :: "ResearchPlanItem list"
  progressLog :: "jsstring list"
  accumulatedResults :: jsstring
  accumulatedSources :: "Source list"
  ai :: "call list"

definition addLog :: "jsstring \<Rightarrow> agent_state \<Rightarrow> agent_state" where
  "addLog message st = st\<lparr>progressLog := progressLog st @ [message]\<rparr>"

definition setStage :: "ResearchStage \<Rightarrow> agent_state \<Rightarrow> agent_state" where
  "setStage s st = st\<lparr>stage := s\<rparr>"

definition resetState :: "agent_state \<Rightarrow> agent_state" where
  "resetState st =
     st\<lparr>topic := [], stage := IDLE, report := None, sources := [], error := None, plan := [],
        progressLog := [], accumulatedResults := [], accumulatedSources := []\<rparr>"

definition runPlanning ::
  "env \<Rightarrow> jsstring \<Rightarrow> agent_state \<Rightarrow> (jsstring + ResearchPlanItem list) \<times> agent_state" where
  "runPlanning e topic0 st =
     (let st1 = addLog (str ''Phase 1: Planning research...'') (setStage PLANNING st)
      in case generateResearchPlan e topic0 (ai st1) of
        (Inl err, ai') \<Rightarrow> (Inl err, st1\<lparr>ai := ai'\<rparr>)
      | (Inr researchPlan, ai') \<Rightarrow>
          (Inr researchPlan,
           addLog (str ''Plan created with '' @ toString (length researchPlan) @ str '' key questions.'')
             (st1\<lparr>ai := ai', plan := researchPlan\<rparr>)))"

definition MAX_ITERATIONS :: nat where
  "MAX_ITERATIONS = 3"

text \<open>One pass of the body of \<open>for (const query of queriesToSearch)\<close>, with its try/catch.\<close>

definition search_query :: "env \<Rightarrow> jsstring \<Rightarrow> agent_state \<Rightarrow> agent_state" where
  "search_query e query st =
     (let st1 = addLog (str ''Searching for: \"'' @ query @ str ''\"'') st
      in case searchWithGrounding e query (ai st1) of
        (Inr (text, newSources), ai') \<Rightarrow>
          (let st2 = st1\<lparr>ai := ai',
                       accumulatedResults := accumulatedResults st1 @
                         str [CHR 0x0A, CHR 0x0A] @ str ''--- Query: '' @ query @ str '' ---'' @
                         str [CHR 0x0A] @ text\<rparr>;
               st3 = st2\<lparr>accumulatedSources := accumulatedSources st2 @ newSources\<rparr>;
               uniqueSources' = uniqueSources (accumulatedSources st3)
           in st3\<lparr>sources := uniqueSources'\<rparr>)
      | (Inl message, ai') \<Rightarrow>
          addLog (str ''Warning: Failed to search for \"'' @ query @ str ''\". Reason: '' @ message @
                  str ''. Continuing...'') (st1\<lparr>ai := ai'\<rparr>))"

fun search_queries :: "env \<Rightarrow> jsstring list \<Rightarrow> agent_state \<Rightarrow> agent_state" where
  "search_queries e [] st = st"
| "search_queries e (query # queries) st = search_queries e queries (search_query e query st)"

text \<open>
  The body of \<open>for (let i = 0; i < MAX_ITERATIONS; i++)\<close> at the value \<open>i\<close> of the
  counter, and how control leaves it: by a thrown error, by \<open>break\<close>, or by falling through
  to \<open>i++\<close> with the new value of \<open>queriesToSearch\<close>.
\<close>

datatype completion =
    Throw jsstring agent_state
  | Break agent_state
  | Next "jsstring list" agent_state

text \<open>The part of the body under the comment \<open>// SEARCHING\<close>, with the log line before it.\<close>

definition searching :: "env \<Rightarrow> nat \<Rightarrow> jsstring list \<Rightarrow> agent_state \<Rightarrow> agent_state" where
  "searching e i queriesToSearch st =
     (let st1 = addLog (str [CHR 0x0A] @ str ''--- Iteration '' @ toString (i + 1) @ str '' of '' @
                        toString MAX_ITERATIONS @ str '' ---'') st;
          st2 = setStage SEARCHING st1;
          st3 = addLog (str ''Searching the web with '' @ toString (length queriesToSearch) @
                        str '' queries...'') st2
      in search_queries e queriesToSearch st3)"

text \<open>The part of the body under the comment \<open>// EVALUATING\<close>, to the end of the body.\<close>

definition evaluating :: "env \<Rightarrow> ResearchPlanItem list \<Rightarrow> nat \<Rightarrow> agent_state \<Rightarrow> completion" where
  "evaluating e initialPlan i st =
     (let st1 = setStage EVALUATING st;
          st2 = addLog (str ''Evaluating collected information for completeness...'') st1
      in case evaluateCompleteness e initialPlan (accumulatedResults st2) (ai st2) of
        (Inl err, ai') \<Rightarrow> Throw err (st2\<lparr>ai := ai'\<rparr>)
      | (Inr evaluation, ai') \<Rightarrow>
          (let st3 = addLog (str ''Evaluation complete. Reasoning: '' @ reasoning evaluation)
                       (st2\<lparr>ai := ai'\<rparr>)
           in if is_complete evaluation then
                Break (addLog (str ''Information is sufficient. Proceeding to synthesis.'') st3)
              else if i = MAX_ITERATIONS - 1 then
                Break (addLog (str ''Max iterations reached. Proceeding to synthesis with available data.'') st3)
              else
                (let st4 = addLog (str ''Information is incomplete. Refining search for '' @
                                   toString (length (unanswered_questions evaluation)) @ str '' topics.'') st3
                 in case refineSearchQueries e (unanswered_questions evaluation) (ai st4) of
                   (Inl err, ai'') \<Rightarrow> Throw err (st4\<lparr>ai := ai''\<rparr>)
                 | (Inr newQueries, ai'') \<Rightarrow>
                     if length newQueries = 0 then
                       Break (addLog (str ''Could not generate new queries. Proceeding to synthesis.'')
                                (st4\<lparr>ai := ai''\<rparr>))
                     else
                       Next (concat (map (\<lambda>q. [english_query q, japanese_query q]) newQueries))
                            (st4\<lparr>ai := ai''\<rparr>))))"

definition iteration :: "env \<Rightarrow> ResearchPlanItem list \<Rightarrow> nat \<Rightarrow> jsstring list \<Rightarrow> agent_state \<Rightarrow> completion" where
  "iteration e initialPlan i queriesToSearch st =
     evaluating e initialPlan i (searching e i queriesToSearch st)"

text \<open>
  The loop from the value \<open>i\<close> of its counter. \<open>Inl message\<close> is an error thrown out of
  the loop, \<open>Inr ()\<close> its normal end.
\<close>

function search_and_evaluate ::
  "env \<Rightarrow> ResearchPlanItem list \<Rightarrow> nat \<Rightarrow> jsstring list \<Rightarrow> agent_state \<Rightarrow> (jsstring + unit) \<times> agent_state" where
  "search_and_evaluate e initialPlan i queriesToSearch st =
     (if i < MAX_ITERATIONS then
        (case iteration e initialPlan i queriesToSearch st of
           Throw err st' \<Rightarrow> (Inl err, st')
         | Break st' \<Rightarrow> (Inr (), st')
         | Next newQueries st' \<Rightarrow> search_and_evaluate e initialPlan (i + 1) newQueries st')
      else (Inr (), st))"
  by pat_completeness auto
termination
  by (relation "measure (\<lambda>(e, initialPlan, i, queriesToSearch, st). MAX_ITERATIONS - i)") auto

definition runSearchAndEvaluateLoop ::
  "env \<Rightarrow> ResearchPlanItem list \<Rightarrow> agent_state \<Rightarrow> (jsstring + unit) \<times> agent_state" where
  "runSearchAndEvaluateLoop e initialPlan st =
     (let queriesToSearch = concat (map (\<lambda>item. [english_question item, japanese_question item]) initialPlan)
      in search_and_evaluate e initialPlan 0 queriesToSearch st)"

definition runSynthesis :: "env \<Rightarrow> jsstring \<Rightarrow> agent_state \<Rightarrow> (jsstring + unit) \<times> agent_state" where
  "runSynthesis e topic0 st =
     (let st1 = addLog (str [CHR 0x0A] @ str ''Phase 4: Synthesizing final report...'') (setStage SYNTHESIZING st)
      in case synthesizeReport e topic0 (accumulatedResults st1) (ai st1) of
        (Inl err, ai') \<Rightarrow> (Inl err, st1\<lparr>ai := ai'\<rparr>)
      | (Inr finalReport, ai') \<Rightarrow>
          (Inr (), addLog (str ''Report synthesized successfully!'')
                     (st1\<lparr>ai := ai', report := Some finalReport\<rparr>)))"

text \<open>The catch block of \<open>handleResearch\<close>.\<close>

definition research_failed :: "jsstring \<Rightarrow> agent_state \<Rightarrow> agent_state" where
  "research_failed message st =
     (let errorMessage = (if message = [] then str ''An unknown error occurred.'' else message)
      in setStage ERROR (addLog (str ''Error: '' @ errorMessage) (st\<lparr>error := Some errorMessage\<rparr>)))"

definition handleResearch :: "env \<Rightarrow> agent_state \<Rightarrow> agent_state" where
  "handleResearch e st =
     (let topic0 = topic st
      in if trim topic0 = [] then st\<lparr>error := Some (str ''Please enter a research topic.'')\<rparr>
         else
           (case runPlanning e topic0 (resetState st) of
              (Inl err, st1) \<Rightarrow> research_failed err st1
            | (Inr researchPlan, st1) \<Rightarrow>
                (case runSearchAndEvaluateLoop e researchPlan st1 of
                   (Inl err, st2) \<Rightarrow> research_failed err st2
                 | (Inr u, st2) \<Rightarrow>
                     (case runSynthesis e topic0 st2 of
                        (Inl err, st3) \<Rightarrow> research_failed err st3
                      | (Inr u', st3) \<Rightarrow> setStage COMPLETE st3))))"

section \<open>ChatBot\<close>

text \<open>
  The remote chat session \<open>chatRef.current\<close> is represented by the messages sent to it;
  \<open>None\<close> is the ref's initial \<open>null\<close> (no API key). The session's answer to
  \<open>sendMessage\<close> is a parameter: \<open>Inl e\<close> a rejected promise, \<open>Inr text\<close> the
  \<open>text\<close> of the response.
\<close>

record Chat =
  sent :: "jsstring list"

record chatbot_state =
  history :: "ChatMessage list"
  input :: jsstring
  isLoading :: bool
  chatRef :: "Chat option"

definition apology :: jsstring where
  "apology = [0x7533, 0x3057, 0x8A33, 0x3042, 0x308A, 0x307E, 0x305B, 0x3093, 0x304C, 0x3001,
     0x30A8, 0x30E9, 0x30FC, 0x304C, 0x767A, 0x751F, 0x3057, 0x307E, 0x3057, 0x305F, 0x3002,
     0x3082, 0x3046, 0x4E00, 0x5EA6, 0x304A, 0x8A66, 0x3057, 0x304F, 0x3060, 0x3055, 0x3044,
     0x3002]"

text \<open>
  A handler \<open>handleSend\<close> belongs to one render of the component. It reads \<open>input\<close> and
  \<open>isLoading\<close> as that render saw them (the constants of its closure), whatever was set
  since; it reads the ref \<open>chatRef.current\<close> when it runs; and its updates
  (\<open>setHistory(prev => ...)\<close>, \<open>setInput\<close>, \<open>setIsLoading\<close>) act on the current state of the
  component. So a call takes two states: \<open>rendered\<close>, the state as the handler's render saw
  it, and the current one. They are equal once the component has re-rendered after the last
  update.

  \<open>handleSend\<close> up to its \<open>await\<close>: the guard, the three state updates and the request.
  The result says whether a request is now pending, and with which message.
\<close>

definition handleSend_start :: "chatbot_state \<Rightarrow> chatbot_state \<Rightarrow> jsstring option \<times> chatbot_state" where
  "handleSend_start rendered st =
     (if trim (input rendered) = [] \<or> isLoading rendered \<or> chatRef st = None then (None, st)
      else
        (case chatRef st of
           None \<Rightarrow> (None, st)
         | Some chat \<Rightarrow>
             (let userMessage = \<lparr>role = user, message_text = input rendered\<rparr>
              in (Some (input rendered),
                  st\<lparr>history := history st @ [userMessage], input := [], isLoading := True,
                     chatRef := Some (chat\<lparr>sent := sent chat @ [input rendered]\<rparr>)\<rparr>))))"

text \<open>\<open>handleSend\<close> after its \<open>await\<close>: try, catch and finally.\<close>

definition handleSend_settle :: "jsstring + jsstring \<Rightarrow> chatbot_state \<Rightarrow> (jsstring + unit) \<times> chatbot_state" where
  "handleSend_settle reply st =
     (let st1 = (case reply of
                   Inr text \<Rightarrow>
                     (let modelMessage = \<lparr>role = model, message_text = text\<rparr>
                      in st\<lparr>history := history st @ [modelMessage]\<rparr>)
                 | Inl err \<Rightarrow>
                     (let errorMessage = \<lparr>role = model, message_text = apology\<rparr>
                      in st\<lparr>history := history st @ [errorMessage]\<rparr>))
      in (Inr (), st1\<lparr>isLoading := False\<rparr>))"

text \<open>A whole call of \<open>handleSend\<close>, when nothing else happens before its request settles.\<close>

definition handleSend ::
  "(nat \<Rightarrow> jsstring \<Rightarrow> jsstring + jsstring) \<Rightarrow> chatbot_state \<Rightarrow> chatbot_state \<Rightarrow>
     (jsstring + unit) \<times> chatbot_state" where
  "handleSend sendMessage rendered st =
     (case handleSend_start rendered st of
        (None, st') \<Rightarrow> (Inr (), st')
      | (Some message, st') \<Rightarrow>
          handleSend_settle
            (sendMessage (length (case chatRef st of None \<Rightarrow> [] | Some chat \<Rightarrow> sent chat)) message) st')"

section \<open>Auxiliary notions for the statements\<close>

text \<open>The fold of \<open>new_Map\<close>, from any map.\<close>

definition Map_inserts :: "('k \<times> 'v) list \<Rightarrow> ('k \<times> 'v) list \<Rightarrow> ('k \<times> 'v) list" where
  "Map_inserts m entries = foldl (\<lambda>m (k, v). Map_set m k v) m entries"

text \<open>
  The state in which an iteration leaves the component; and the number of evaluation
  requests in a list of requests. Every pass through the loop body that reaches its
  evaluation makes exactly one, and none is made anywhere else.
\<close>

fun state_of :: "completion \<Rightarrow> agent_state" where
  "state_of (Throw err st) = st"
| "state_of (Break st) = st"
| "state_of (Next queries st) = st"

fun is_evaluate :: "call \<Rightarrow> bool" where
  "is_evaluate (EvaluateCall p r) = True"
| "is_evaluate c = False"

definition rounds :: "call list \<Rightarrow> nat" where
  "rounds cs = length (filter is_evaluate cs)"

text \<open>
  The sources returned by the search requests among \<open>cs\<close>, in the order of the requests,
  when \<open>cs\<close> are the requests made after the requests \<open>before\<close>: each search request is
  answered as \<open>searchWithGrounding\<close> was at that point of the log; a failed search and a
  request of another kind contribute nothing.
\<close>

fun search_results :: "env \<Rightarrow> call list \<Rightarrow> call list \<Rightarrow> Source list" where
  "search_results e before [] = []"
| "search_results e before (c # cs) =
     (case c of
        SearchCall q \<Rightarrow>
          (case fst (searchWithGrounding e q before) of
             Inl err \<Rightarrow> []
           | Inr (found, newSources) \<Rightarrow> newSources)
      | _ \<Rightarrow> []) @
     search_results e (before @ [c]) cs"

declare replaceAll.simps [simp del]

declare search_and_evaluate.simps [simp del]

section \<open>A concrete remote model\<close>

text \<open>
  A remote model for the examples: the plan has one item; the search for the Japanese
  question fails, every other search answers \<open>found\<close> with grounding chunks that depend on
  the query (the same uri comes back with different titles); the evaluation answers "incomplete" as long as fewer than \<open>done_from\<close> requests were made
  before it; the refinement answers with the queries \<open>refined\<close>.
\<close>

definition example_item :: ResearchPlanItem where
  "example_item = \<lparr>english_question = str ''q'', japanese_question = str ''Q''\<rparr>"

definition example_chunks :: "GroundingChunk list" where
  "example_chunks =
     [\<lparr>web = Some \<lparr>web_uri = Some (str ''u1''), web_title = Some (str ''A'')\<rparr>\<rparr>,
      \<lparr>web = Some \<lparr>web_uri = Some (str ''u2''), web_title = None\<rparr>\<rparr>,
      \<lparr>web = Some \<lparr>web_uri = Some (str ''u1''), web_title = Some (str ''B'')\<rparr>\<rparr>,
      \<lparr>web = Some \<lparr>web_uri = None, web_title = Some (str ''C'')\<rparr>\<rparr>,
      \<lparr>web = None\<rparr>]"

definition example_chunks_e :: "GroundingChunk list" where
  "example_chunks_e =
     [\<lparr>web = Some \<lparr>web_uri = Some (str ''u1''), web_title = Some (str ''C'')\<rparr>\<rparr>]"

definition example_chunks_j :: "GroundingChunk list" where
  "example_chunks_j =
     [\<lparr>web = Some \<lparr>web_uri = Some (str ''u3''), web_title = Some (str ''D'')\<rparr>\<rparr>,
      \<lparr>web = Some \<lparr>web_uri = Some (str ''u2''), web_title = Some (str ''E'')\<rparr>\<rparr>]"

definition example_refined :: "RefinedQuery list" where
  "example_refined = [\<lparr>english_query = str ''e'', japanese_query = str ''j''\<rparr>]"

definition example_incomplete :: Evaluation where
  "example_incomplete = \<lparr>is_complete = False, unanswered_questions = [str ''q''], reasoning = str ''r''\<rparr>"

definition example_complete :: Evaluation where
  "example_complete = \<lparr>is_complete = True, unanswered_questions = [], reasoning = str ''r''\<rparr>"

definition example_env :: "nat \<Rightarrow> RefinedQuery list \<Rightarrow> env" where
  "example_env done_from refined =
     \<lparr>generateContent = (\<lambda>n c. case c of
          PlanCall t \<Rightarrow> Inr \<lparr>response_text = str ''plan'', groundingChunks = None\<rparr>
        | SearchCall q \<Rightarrow>
            if q = str ''Q'' then Inl (str ''offline'')
            else Inr \<lparr>response_text = str ''found'',
                      groundingChunks = Some (if q = str ''e'' then example_chunks_e
                                              else if q = str ''j'' then example_chunks_j
                                              else example_chunks)\<rparr>
        | EvaluateCall p r \<Rightarrow>
            Inr \<lparr>response_text = (if n < done_from then str ''more'' else str ''done''),
                 groundingChunks = None\<rparr>
        | RefineCall u \<Rightarrow> Inr \<lparr>response_text = str ''queries'', groundingChunks = None\<rparr>
        | SynthesizeCall t r \<Rightarrow> Inr \<lparr>response_text = str ''report'', groundingChunks = None\<rparr>),
      JSON_parse_plan = (\<lambda>s.
        if s = str ''plan'' then Some \<lparr>result_plan = Some [example_item]\<rparr> else None),
      JSON_parse_evaluation = (\<lambda>s.
        if s = str ''more'' then Some example_incomplete
        else if s = str ''done'' then Some example_complete
        else None),
      JSON_parse_queries = (\<lambda>s.
        if s = str ''queries'' then Some \<lparr>result_queries = Some refined\<rparr> else None),
      JSON_parse_report = (\<lambda>s.
        if s = str ''report'' then Some \<lparr>report_title = str ''T'', summary = str ''S'', sections = []\<rparr>
        else None)\<rparr>"

definition example_state :: agent_state where
  "example_state =
     \<lparr>topic = str ''t'', stage = IDLE, report = None, sources = [], error = None, plan = [],
      progressLog = [], accumulatedResults = [], accumulatedSources = [], ai = []\<rparr>"

text \<open>The evidence buffer after the first and after the second iteration of the example.\<close>

definition example_results1 :: jsstring where
  "example_results1 =
     str [CHR 0x0A, CHR 0x0A] @ str ''--- Query: q ---'' @ str [CHR 0x0A] @ str ''found''"

definition example_results2 :: jsstring where
  "example_results2 =
     example_results1 @
     str [CHR 0x0A, CHR 0x0A] @ str ''--- Query: e ---'' @ str [CHR 0x0A] @ str ''found'' @
     str [CHR 0x0A, CHR 0x0A] @ str ''--- Query: j ---'' @ str [CHR 0x0A] @ str ''found''"


definition example_chat :: chatbot_state where
  "example_chat = \<lparr>history = [], input = str ''hi'', isLoading = False, chatRef = Some \<lparr>sent = []\<rparr>\<rparr>"


definition example_offline :: "nat \<Rightarrow> jsstring \<Rightarrow> jsstring + jsstring" where
  "example_offline n message = Inl (str ''offline'')"

section \<open>Strings\<close>







section \<open>Deduplication by \<open>Map\<close>\<close>

lemma Map_set_keys:
  "map fst (Map_set m k v) = (if k \<in> set (map fst m) then map fst m else map fst m @ [k])"
  by (induction m) auto

lemma Map_set_distinct: "distinct (map fst m) \<Longrightarrow> distinct (map fst (Map_set m k v))"
  by (simp add: Map_set_keys)

lemma Map_set_map_of: "map_of (Map_set m k v) = (map_of m)(k \<mapsto> v)"
  by (induction m) auto

lemma Map_set_values: "set (map snd (Map_set m k v)) \<subseteq> insert v (set (map snd m))"
  by (induction m) auto

lemma Map_set_keyed:
  "\<forall>p\<in>set m. f (snd p) = fst p \<Longrightarrow> f v = k \<Longrightarrow> \<forall>p\<in>set (Map_set m k v). f (snd p) = fst p"
  by (induction m) auto

lemma Map_inserts_Nil: "Map_inserts m [] = m"
  by (simp add: Map_inserts_def)

lemma Map_inserts_Cons: "Map_inserts m (p # ps) = Map_inserts (Map_set m (fst p) (snd p)) ps"
  by (simp add: Map_inserts_def split: prod.splits)

lemma Map_inserts_distinct: "distinct (map fst m) \<Longrightarrow> distinct (map fst (Map_inserts m es))"
  by (induction es arbitrary: m) (simp_all add: Map_inserts_Nil Map_inserts_Cons Map_set_distinct)

lemma Map_inserts_map_of: "map_of (Map_inserts m es) = map_of m ++ map_of (rev es)"
proof (induction es arbitrary: m)
  case Nil
  then show ?case by (simp add: Map_inserts_Nil)
next
  case (Cons p ps)
  have "map_of (Map_inserts m (p # ps)) = (map_of m)(fst p \<mapsto> snd p) ++ map_of (rev ps)"
    by (simp only: Map_inserts_Cons Cons.IH Map_set_map_of)
  also have "\<dots> = map_of m ++ map_of (rev (p # ps))"
    by (cases p) (simp add: map_add_def fun_eq_iff split: option.splits)
  finally show ?case .
qed

lemma Map_inserts_values: "set (map snd (Map_inserts m es)) \<subseteq> set (map snd m) \<union> set (map snd es)"
proof (induction es arbitrary: m)
  case Nil
  then show ?case by (simp add: Map_inserts_Nil)
next
  case (Cons p ps)
  have "set (map snd (Map_inserts m (p # ps))) \<subseteq> set (map snd (Map_set m (fst p) (snd p))) \<union> set (map snd ps)"
    using Cons.IH by (simp add: Map_inserts_Cons)
  also have "\<dots> \<subseteq> insert (snd p) (set (map snd m)) \<union> set (map snd ps)"
    using Map_set_values [of m "fst p" "snd p"] by blast
  also have "\<dots> = set (map snd m) \<union> set (map snd (p # ps))"
    by simp
  finally show ?case .
qed

lemma Map_inserts_keyed:
  "\<forall>p\<in>set m. f (snd p) = fst p \<Longrightarrow> \<forall>p\<in>set es. f (snd p) = fst p \<Longrightarrow>
   \<forall>p\<in>set (Map_inserts m es). f (snd p) = fst p"
proof (induction es arbitrary: m)
  case Nil
  then show ?case by (simp add: Map_inserts_Nil)
next
  case (Cons p ps)
  from Cons.prems have 1: "\<forall>q\<in>set (Map_set m (fst p) (snd p)). f (snd q) = fst q"
    by (intro Map_set_keyed) simp_all
  from Cons.prems have 2: "\<forall>q\<in>set ps. f (snd q) = fst q"
    by simp
  show ?case
    unfolding Map_inserts_Cons by (rule Cons.IH [OF 1 2])
qed

lemma new_Map_inserts: "new_Map es = Map_inserts [] es"
  by (simp add: new_Map_def Map_inserts_def)

lemma find_keyed_values:
  "\<forall>p\<in>set m. f (snd p) = fst p \<Longrightarrow> find (\<lambda>v. f v = k) (map snd m) = map_of m k"
  by (induction m) auto

lemma map_of_keyed: "map_of (map (\<lambda>s. (f s, s)) xs) k = find (\<lambda>s. f s = k) xs"
  by (induction xs) auto

lemma uniqueSources_subset: "set (uniqueSources ss) \<subseteq> set ss"
  using Map_inserts_values [of "[]" "map (\<lambda>s. (uri s, s)) ss"]
  by (simp add: uniqueSources_def Map_values_def new_Map_inserts image_image)

lemma uniqueSources_keyed:
  "\<forall>p\<in>set (new_Map (map (\<lambda>s. (uri s, s)) ss)). uri (snd p) = fst p"
  unfolding new_Map_inserts by (rule Map_inserts_keyed) simp_all

lemma uniqueSources_distinct: "distinct (map uri (uniqueSources ss))"
proof -
  have "map uri (uniqueSources ss) = map fst (new_Map (map (\<lambda>s. (uri s, s)) ss))"
    using uniqueSources_keyed [of ss] by (simp add: uniqueSources_def Map_values_def)
  then show ?thesis
    by (simp add: new_Map_inserts Map_inserts_distinct)
qed

lemma uniqueSources_last_wins:
  "find (\<lambda>s. uri s = u) (uniqueSources ss) = find (\<lambda>s. uri s = u) (rev ss)"
proof -
  have "find (\<lambda>s. uri s = u) (uniqueSources ss) = map_of (new_Map (map (\<lambda>s. (uri s, s)) ss)) u"
    unfolding uniqueSources_def Map_values_def
    by (rule find_keyed_values) (rule uniqueSources_keyed)
  also have "\<dots> = map_of (map (\<lambda>s. (uri s, s)) (rev ss)) u"
    by (simp add: new_Map_inserts Map_inserts_map_of rev_map)
  finally show ?thesis by (simp add: map_of_keyed)
qed

lemma str_nonempty: "s \<noteq> [] \<Longrightarrow> str s \<noteq> []"
  by (simp add: str_def)

lemma or_default_nonempty: "d \<noteq> [] \<Longrightarrow> or_default x d \<noteq> []"
  by (simp add: or_default_def split: option.splits)

lemma chunk_to_source_title: "title (chunk_to_source c) \<noteq> []"
  by (simp add: chunk_to_source_def or_default_nonempty str_nonempty)

section \<open>The request log and the buffers, step by step\<close>

lemma addLog_fields:
  "ai (addLog m st) = ai st"
  "accumulatedResults (addLog m st) = accumulatedResults st"
  "accumulatedSources (addLog m st) = accumulatedSources st"
  "sources (addLog m st) = sources st"
  by (simp_all add: addLog_def)

lemma setStage_fields:
  "ai (setStage s st) = ai st"
  "accumulatedResults (setStage s st) = accumulatedResults st"
  "accumulatedSources (setStage s st) = accumulatedSources st"
  "sources (setStage s st) = sources st"
  by (simp_all add: setStage_def)

lemma generateResearchPlan_log: "snd (generateResearchPlan e t cs) = cs @ [PlanCall t]"
  by (simp add: generateResearchPlan_def ai_generateContent_def Let_def split: sum.splits option.splits)

lemma searchWithGrounding_log: "snd (searchWithGrounding e q cs) = cs @ [SearchCall q]"
  by (simp add: searchWithGrounding_def ai_generateContent_def Let_def split: sum.splits)

lemma evaluateCompleteness_log: "snd (evaluateCompleteness e p r cs) = cs @ [EvaluateCall p r]"
  by (simp add: evaluateCompleteness_def ai_generateContent_def Let_def split: sum.splits option.splits)

lemma refineSearchQueries_log: "snd (refineSearchQueries e u cs) = cs @ [RefineCall u]"
  by (simp add: refineSearchQueries_def ai_generateContent_def Let_def split: sum.splits option.splits)

lemma synthesizeReport_log: "snd (synthesizeReport e t r cs) = cs @ [SynthesizeCall t r]"
  by (simp add: synthesizeReport_def ai_generateContent_def Let_def split: sum.splits option.splits)

lemma search_query_ai: "ai (search_query e q st) = ai st @ [SearchCall q]"
  using searchWithGrounding_log [of e q "ai st"]
  by (cases "searchWithGrounding e q (ai st)")
     (auto simp: search_query_def Let_def addLog_fields split: sum.splits)


lemma search_query_sources:
  "sources st = uniqueSources (accumulatedSources st) \<Longrightarrow>
   sources (search_query e q st) = uniqueSources (accumulatedSources (search_query e q st))"
  by (cases "searchWithGrounding e q (ai st)")
     (auto simp: search_query_def Let_def addLog_fields split: sum.splits)

lemma search_queries_ai: "ai (search_queries e qs st) = ai st @ map SearchCall qs"
  by (induction qs arbitrary: st) (simp_all add: search_query_ai)


lemma search_queries_sources:
  "sources st = uniqueSources (accumulatedSources st) \<Longrightarrow>
   sources (search_queries e qs st) = uniqueSources (accumulatedSources (search_queries e qs st))"
  by (induction qs arbitrary: st) (simp_all add: search_query_sources)

lemma searching_ai: "ai (searching e i qs st) = ai st @ map SearchCall qs"
  by (simp add: searching_def Let_def search_queries_ai addLog_fields setStage_fields)


lemma searching_sources:
  "sources st = uniqueSources (accumulatedSources st) \<Longrightarrow>
   sources (searching e i qs st) = uniqueSources (accumulatedSources (searching e i qs st))"
  unfolding searching_def Let_def
  by (rule search_queries_sources) (simp add: addLog_fields setStage_fields)

lemma evaluating_fields:
  "accumulatedResults (state_of (evaluating e p i st)) = accumulatedResults st"
  "accumulatedSources (state_of (evaluating e p i st)) = accumulatedSources st"
  "sources (state_of (evaluating e p i st)) = sources st"
  by (simp_all add: evaluating_def Let_def addLog_fields setStage_fields
      split: prod.splits sum.splits)

lemma evaluating_eval_failed:
  assumes "fst (evaluateCompleteness e p (accumulatedResults st) (ai st)) = Inl m"
  shows "evaluating e p i st = Throw m (state_of (evaluating e p i st))"
    and "ai (state_of (evaluating e p i st)) = ai st @ [EvaluateCall p (accumulatedResults st)]"
  using assms evaluateCompleteness_log [of e p "accumulatedResults st" "ai st"]
  by (cases "evaluateCompleteness e p (accumulatedResults st) (ai st)";
      simp add: evaluating_def Let_def addLog_fields setStage_fields)+

lemma evaluating_stop:
  assumes "fst (evaluateCompleteness e p (accumulatedResults st) (ai st)) = Inr ev"
    and "is_complete ev \<or> Suc i = MAX_ITERATIONS"
  shows "evaluating e p i st = Break (state_of (evaluating e p i st))"
    and "ai (state_of (evaluating e p i st)) = ai st @ [EvaluateCall p (accumulatedResults st)]"
  using assms evaluateCompleteness_log [of e p "accumulatedResults st" "ai st"]
  by (cases "evaluateCompleteness e p (accumulatedResults st) (ai st)";
      cases "is_complete ev";
      simp add: evaluating_def Let_def addLog_fields setStage_fields MAX_ITERATIONS_def)+

lemma evaluating_refine:
  assumes "fst (evaluateCompleteness e p (accumulatedResults st) (ai st)) = Inr ev"
    and "\<not> is_complete ev" and "Suc i \<noteq> MAX_ITERATIONS"
  shows "ai (state_of (evaluating e p i st)) =
           ai st @ [EvaluateCall p (accumulatedResults st), RefineCall (unanswered_questions ev)]"
    and "evaluating e p i st =
           (case fst (refineSearchQueries e (unanswered_questions ev)
                        (ai st @ [EvaluateCall p (accumulatedResults st)])) of
              Inl err \<Rightarrow> Throw err (state_of (evaluating e p i st))
            | Inr newQueries \<Rightarrow>
                if newQueries = [] then Break (state_of (evaluating e p i st))
                else Next (concat (map (\<lambda>q. [english_query q, japanese_query q]) newQueries))
                       (state_of (evaluating e p i st)))"
proof -
  let ?E = "EvaluateCall p (accumulatedResults st)"
  obtain x cs where ev: "evaluateCompleteness e p (accumulatedResults st) (ai st) = (x, cs)"
    by (cases "evaluateCompleteness e p (accumulatedResults st) (ai st)")
  with assms(1) evaluateCompleteness_log [of e p "accumulatedResults st" "ai st"]
  have x: "x = Inr ev" and cs: "cs = ai st @ [?E]"
    by simp_all
  obtain y ds where rf: "refineSearchQueries e (unanswered_questions ev) (ai st @ [?E]) = (y, ds)"
    by (cases "refineSearchQueries e (unanswered_questions ev) (ai st @ [?E])")
  with refineSearchQueries_log [of e "unanswered_questions ev" "ai st @ [?E]"]
  have ds: "ds = ai st @ [?E, RefineCall (unanswered_questions ev)]"
    by simp
  from assms(3) have i: "i \<noteq> MAX_ITERATIONS - 1"
    by (simp add: MAX_ITERATIONS_def)
  show "ai (state_of (evaluating e p i st)) = ai st @ [?E, RefineCall (unanswered_questions ev)]"
    using assms(2) i
    by (cases y) (simp_all add: evaluating_def Let_def addLog_fields setStage_fields ev x cs rf ds)
  show "evaluating e p i st =
           (case fst (refineSearchQueries e (unanswered_questions ev) (ai st @ [?E])) of
              Inl err \<Rightarrow> Throw err (state_of (evaluating e p i st))
            | Inr newQueries \<Rightarrow>
                if newQueries = [] then Break (state_of (evaluating e p i st))
                else Next (concat (map (\<lambda>q. [english_query q, japanese_query q]) newQueries))
                       (state_of (evaluating e p i st)))"
    using assms(2) i
    by (cases y) (simp_all add: evaluating_def Let_def addLog_fields setStage_fields ev x cs rf ds)
qed

lemma rounds_append: "rounds (xs @ ys) = rounds xs + rounds ys"
  by (simp add: rounds_def)

lemma rounds_searches: "rounds (map SearchCall qs) = 0"
  by (induction qs) (simp_all add: rounds_def)

lemma evaluating_ai:
  "\<exists>rf. ai (state_of (evaluating e p i st)) = ai st @ EvaluateCall p (accumulatedResults st) # rf \<and>
        (rf = [] \<or> (\<exists>u. rf = [RefineCall u]))"
proof (cases "fst (evaluateCompleteness e p (accumulatedResults st) (ai st))")
  case (Inl m)
  then show ?thesis by (simp add: evaluating_eval_failed(2))
next
  case (Inr ev)
  show ?thesis
  proof (cases "is_complete ev \<or> Suc i = MAX_ITERATIONS")
    case True
    with Inr show ?thesis by (simp add: evaluating_stop(2))
  next
    case False
    with Inr show ?thesis by (simp add: evaluating_refine(1))
  qed
qed

lemma iteration_ai:
  "\<exists>rf. ai (state_of (iteration e p i qs st)) =
          ai st @ map SearchCall qs @ EvaluateCall p (accumulatedResults (state_of (iteration e p i qs st))) # rf \<and>
        (rf = [] \<or> (\<exists>u. rf = [RefineCall u]))"
  using evaluating_ai [of e p i "searching e i qs st"]
  by (simp add: iteration_def searching_ai evaluating_fields)

lemma iteration_rounds: "rounds (ai (state_of (iteration e p i qs st))) = Suc (rounds (ai st))"
proof -
  obtain rf where "ai (state_of (iteration e p i qs st)) =
      ai st @ map SearchCall qs @ EvaluateCall p (accumulatedResults (state_of (iteration e p i qs st))) # rf"
    and "rf = [] \<or> (\<exists>u. rf = [RefineCall u])"
    using iteration_ai by blast
  then show ?thesis
    by (auto simp: rounds_append rounds_searches) (simp_all add: rounds_def)
qed


lemma iteration_sources:
  "sources st = uniqueSources (accumulatedSources st) \<Longrightarrow>
   sources (state_of (iteration e p i qs st)) =
     uniqueSources (accumulatedSources (state_of (iteration e p i qs st)))"
  by (simp add: iteration_def evaluating_fields searching_sources)

lemma search_and_evaluate_rounds:
  "rounds (ai (snd (search_and_evaluate e p i qs st))) \<le> rounds (ai st) + (MAX_ITERATIONS - i)"
proof (induction e p i qs st rule: search_and_evaluate.induct)
  case (1 e p i qs st)
  show ?case
  proof (cases "i < MAX_ITERATIONS")
    case False
    then show ?thesis by (simp add: search_and_evaluate.simps [of e p i qs st])
  next
    case True
    note r = iteration_rounds [of e p i qs st]
    show ?thesis
    proof (cases "iteration e p i qs st")
      case (Throw m s)
      with True r show ?thesis by (simp add: search_and_evaluate.simps [of e p i qs st])
    next
      case (Break s)
      with True r show ?thesis by (simp add: search_and_evaluate.simps [of e p i qs st])
    next
      case (Next qs' s)
      from "1.IH" [OF True Next] True r Next show ?thesis
        by (simp add: search_and_evaluate.simps [of e p i qs st])
    qed
  qed
qed


lemma search_and_evaluate_sources:
  "sources st = uniqueSources (accumulatedSources st) \<Longrightarrow>
   sources (snd (search_and_evaluate e p i qs st)) =
     uniqueSources (accumulatedSources (snd (search_and_evaluate e p i qs st)))"
proof (induction e p i qs st rule: search_and_evaluate.induct)
  case (1 e p i qs st)
  show ?case
  proof (cases "i < MAX_ITERATIONS")
    case False
    with "1.prems" show ?thesis by (simp add: search_and_evaluate.simps [of e p i qs st])
  next
    case True
    note r = iteration_sources [OF "1.prems", of e p i qs]
    show ?thesis
    proof (cases "iteration e p i qs st")
      case (Throw m s)
      with True r show ?thesis by (simp add: search_and_evaluate.simps [of e p i qs st])
    next
      case (Break s)
      with True r show ?thesis by (simp add: search_and_evaluate.simps [of e p i qs st])
    next
      case (Next qs' s)
      from r Next have "sources s = uniqueSources (accumulatedSources s)"
        by simp
      from "1.IH" [OF True Next this] True Next show ?thesis
        by (simp add: search_and_evaluate.simps [of e p i qs st])
    qed
  qed
qed

lemma search_and_evaluate_ai: "prefix (ai st) (ai (snd (search_and_evaluate e p i qs st)))"
proof (induction e p i qs st rule: search_and_evaluate.induct)
  case (1 e p i qs st)
  show ?case
  proof (cases "i < MAX_ITERATIONS")
    case False
    then show ?thesis by (simp add: search_and_evaluate.simps [of e p i qs st])
  next
    case True
    from iteration_ai [of e p i qs st]
    have r: "prefix (ai st) (ai (state_of (iteration e p i qs st)))"
      by (auto simp: prefix_def)
    show ?thesis
    proof (cases "iteration e p i qs st")
      case (Throw m s)
      with True r show ?thesis by (simp add: search_and_evaluate.simps [of e p i qs st])
    next
      case (Break s)
      with True r show ?thesis by (simp add: search_and_evaluate.simps [of e p i qs st])
    next
      case (Next qs' s)
      from r Next have "prefix (ai st) (ai s)"
        by simp
      also note "1.IH" [OF True Next]
      finally show ?thesis using True Next
        by (simp add: search_and_evaluate.simps [of e p i qs st])
    qed
  qed
qed

lemma research_failed_fields:
  "ai (research_failed m st) = ai st"
  "accumulatedResults (research_failed m st) = accumulatedResults st"
  "accumulatedSources (research_failed m st) = accumulatedSources st"
  "sources (research_failed m st) = sources st"
  by (simp_all add: research_failed_def Let_def addLog_fields setStage_fields)

lemma resetState_fields:
  "ai (resetState st) = ai st"
  "accumulatedResults (resetState st) = []"
  "accumulatedSources (resetState st) = []"
  "sources (resetState st) = []"
  by (simp_all add: resetState_def)

lemma runPlanning_fields:
  "ai (snd (runPlanning e t st)) = ai st @ [PlanCall t]"
  "accumulatedResults (snd (runPlanning e t st)) = accumulatedResults st"
  "accumulatedSources (snd (runPlanning e t st)) = accumulatedSources st"
  "sources (snd (runPlanning e t st)) = sources st"
  using generateResearchPlan_log [of e t "ai st"]
  by (cases "generateResearchPlan e t (ai st)";
      simp add: runPlanning_def Let_def addLog_fields setStage_fields split: sum.splits)+

lemma runSynthesis_fields:
  "ai (snd (runSynthesis e t st)) = ai st @ [SynthesizeCall t (accumulatedResults st)]"
  "accumulatedResults (snd (runSynthesis e t st)) = accumulatedResults st"
  "accumulatedSources (snd (runSynthesis e t st)) = accumulatedSources st"
  "sources (snd (runSynthesis e t st)) = sources st"
  using synthesizeReport_log [of e t "accumulatedResults st" "ai st"]
  by (cases "synthesizeReport e t (accumulatedResults st) (ai st)";
      simp add: runSynthesis_def Let_def addLog_fields setStage_fields split: sum.splits)+

lemma handleResearch_idle:
  "trim (topic st) = [] \<Longrightarrow> handleResearch e st = st\<lparr>error := Some (str ''Please enter a research topic.'')\<rparr>"
  by (simp add: handleResearch_def Let_def)

lemma handleResearch_run:
  "trim (topic st) \<noteq> [] \<Longrightarrow>
   handleResearch e st =
     (case runPlanning e (topic st) (resetState st) of
        (Inl err, st1) \<Rightarrow> research_failed err st1
      | (Inr researchPlan, st1) \<Rightarrow>
          (case runSearchAndEvaluateLoop e researchPlan st1 of
             (Inl err, st2) \<Rightarrow> research_failed err st2
           | (Inr u, st2) \<Rightarrow>
               (case runSynthesis e (topic st) st2 of
                  (Inl err, st3) \<Rightarrow> research_failed err st3
                | (Inr u', st3) \<Rightarrow> setStage COMPLETE st3)))"
  by (simp add: handleResearch_def Let_def)

text \<open>The states a run passes through, whatever its outcome.\<close>

lemma handleResearch_stages:
  assumes "trim (topic st) \<noteq> []"
  obtains (planning_failed) "ai (handleResearch e st) = ai st @ [PlanCall (topic st)]"
      "accumulatedSources (handleResearch e st) = []" "sources (handleResearch e st) = []"
  | (loop_failed) p m st1 st2 where
      "runPlanning e (topic st) (resetState st) = (Inr p, st1)"
      "runSearchAndEvaluateLoop e p st1 = (Inl m, st2)"
      "ai (handleResearch e st) = ai st2"
      "accumulatedResults (handleResearch e st) = accumulatedResults st2"
      "accumulatedSources (handleResearch e st) = accumulatedSources st2"
      "sources (handleResearch e st) = sources st2"
  | (synthesis) p st1 st2 where
      "runPlanning e (topic st) (resetState st) = (Inr p, st1)"
      "runSearchAndEvaluateLoop e p st1 = (Inr (), st2)"
      "ai (handleResearch e st) = ai st2 @ [SynthesizeCall (topic st) (accumulatedResults st2)]"
      "accumulatedResults (handleResearch e st) = accumulatedResults st2"
      "accumulatedSources (handleResearch e st) = accumulatedSources st2"
      "sources (handleResearch e st) = sources st2"
proof -
  note run = handleResearch_run [OF assms, of e]
  obtain r1 st1 where 1: "runPlanning e (topic st) (resetState st) = (r1, st1)"
    by (cases "runPlanning e (topic st) (resetState st)")
  note f1 = runPlanning_fields [of e "topic st" "resetState st", unfolded 1 snd_conv resetState_fields]
  show thesis
  proof (cases r1)
    case (Inl m)
    with run 1 f1 show thesis
      by (intro planning_failed) (simp_all add: research_failed_fields)
  next
    case (Inr p)
    obtain r2 st2 where 2: "runSearchAndEvaluateLoop e p st1 = (r2, st2)"
      by (cases "runSearchAndEvaluateLoop e p st1")
    show thesis
    proof (cases r2)
      case (Inl m)
      with run 1 Inr 2 show thesis
        by (intro loop_failed [of p st1 m st2]) (simp_all add: research_failed_fields)
    next
      case u: (Inr u)
      obtain r3 st3 where 3: "runSynthesis e (topic st) st2 = (r3, st3)"
        by (cases "runSynthesis e (topic st) st2")
      note f3 = runSynthesis_fields [of e "topic st" st2, unfolded 3 snd_conv]
      from run 1 Inr 2 u 3 f3 show thesis
        by (intro synthesis [of p st1 st2]; cases r3)
           (simp_all add: research_failed_fields setStage_fields)
    qed
  qed
qed

lemma runSearchAndEvaluateLoop_rounds:
  "rounds (ai (snd (runSearchAndEvaluateLoop e p st))) \<le> rounds (ai st) + MAX_ITERATIONS"
  using search_and_evaluate_rounds [of e p 0]
  by (simp add: runSearchAndEvaluateLoop_def Let_def)


lemma runSearchAndEvaluateLoop_sources:
  "sources st = uniqueSources (accumulatedSources st) \<Longrightarrow>
   sources (snd (runSearchAndEvaluateLoop e p st)) =
     uniqueSources (accumulatedSources (snd (runSearchAndEvaluateLoop e p st)))"
  by (simp add: runSearchAndEvaluateLoop_def Let_def search_and_evaluate_sources)

lemma uniqueSources_Nil: "uniqueSources [] = []"
  by (simp add: uniqueSources_def new_Map_def Map_values_def)

lemma handleResearch_sources:
  assumes "trim (topic st) \<noteq> []"
  shows "sources (handleResearch e st) = uniqueSources (accumulatedSources (handleResearch e st))"
  using assms
proof (cases rule: handleResearch_stages [where e = e])
  case planning_failed
  then show ?thesis by (simp add: uniqueSources_Nil)
next
  case (loop_failed p m st1 st2)
  from runPlanning_fields(3,4) [of e "topic st" "resetState st"] loop_failed(1)
  have "sources st1 = uniqueSources (accumulatedSources st1)"
    by (simp add: resetState_fields uniqueSources_Nil)
  from runSearchAndEvaluateLoop_sources [OF this, of e p] loop_failed show ?thesis
    by simp
next
  case (synthesis p st1 st2)
  from runPlanning_fields(3,4) [of e "topic st" "resetState st"] synthesis(1)
  have "sources st1 = uniqueSources (accumulatedSources st1)"
    by (simp add: resetState_fields uniqueSources_Nil)
  from runSearchAndEvaluateLoop_sources [OF this, of e p] synthesis show ?thesis
    by simp
qed

lemma handleResearch_rounds:
  "rounds (ai (handleResearch e st)) \<le> rounds (ai st) + MAX_ITERATIONS"
proof (cases "trim (topic st) = []")
  case True
  then show ?thesis by (simp add: handleResearch_idle)
next
  case False
  then show ?thesis
  proof (cases rule: handleResearch_stages [where e = e])
    case planning_failed
    then show ?thesis by (simp add: rounds_def)
  next
    case (loop_failed p m st1 st2)
    from runPlanning_fields(1) [of e "topic st" "resetState st"] loop_failed(1)
    have "rounds (ai st1) = rounds (ai st)"
      by (simp add: resetState_fields rounds_def)
    with runSearchAndEvaluateLoop_rounds [of e p st1] loop_failed show ?thesis
      by simp
  next
    case (synthesis p st1 st2)
    from runPlanning_fields(1) [of e "topic st" "resetState st"] synthesis(1)
    have "rounds (ai st1) = rounds (ai st)"
      by (simp add: resetState_fields rounds_def)
    with runSearchAndEvaluateLoop_rounds [of e p st1] synthesis show ?thesis
      by (simp add: rounds_def)
  qed
qed

text \<open>The accumulated sources are the search results of the requests made, in their order.\<close>

lemma search_results_append:
  "search_results e b (xs @ ys) = search_results e b xs @ search_results e (b @ xs) ys"
  by (induction xs arbitrary: b) simp_all

lemma search_query_accumulated:
  "accumulatedSources (search_query e q st) =
     accumulatedSources st @ search_results e (ai st) [SearchCall q]"
  by (cases "searchWithGrounding e q (ai st)")
     (auto simp: search_query_def Let_def addLog_fields split: sum.splits)

lemma search_queries_accumulated:
  "accumulatedSources (search_queries e qs st) =
     accumulatedSources st @ search_results e (ai st) (map SearchCall qs)"
proof (induction qs arbitrary: st)
  case Nil
  show ?case by simp
next
  case (Cons q qs)
  have "search_results e (ai st) (map SearchCall (q # qs)) =
        search_results e (ai st) [SearchCall q] @ search_results e (ai st @ [SearchCall q]) (map SearchCall qs)"
    using search_results_append [of e "ai st" "[SearchCall q]" "map SearchCall qs"] by simp
  then show ?case
    by (simp only: search_queries.simps Cons.IH search_query_accumulated search_query_ai append_assoc)
qed

lemma searching_accumulated:
  "accumulatedSources (searching e i qs st) =
     accumulatedSources st @ search_results e (ai st) (map SearchCall qs)"
  by (simp add: searching_def Let_def search_queries_accumulated addLog_fields setStage_fields)

lemma iteration_accumulated:
  "\<exists>tr. ai (state_of (iteration e p i qs st)) = ai st @ tr \<and>
        accumulatedSources (state_of (iteration e p i qs st)) =
          accumulatedSources st @ search_results e (ai st) tr"
proof -
  let ?S = "searching e i qs st"
  obtain rf where rf: "ai (state_of (evaluating e p i ?S)) = ai ?S @ EvaluateCall p (accumulatedResults ?S) # rf"
    "rf = [] \<or> (\<exists>u. rf = [RefineCall u])"
    using evaluating_ai by blast
  let ?tr = "map SearchCall qs @ EvaluateCall p (accumulatedResults ?S) # rf"
  from rf(2) have "search_results e (ai st) ?tr = search_results e (ai st) (map SearchCall qs)"
    by (auto simp: search_results_append)
  with rf(1) have "ai (state_of (iteration e p i qs st)) = ai st @ ?tr \<and>
        accumulatedSources (state_of (iteration e p i qs st)) =
          accumulatedSources st @ search_results e (ai st) ?tr"
    by (simp add: iteration_def evaluating_fields searching_ai searching_accumulated)
  then show ?thesis ..
qed

lemma search_and_evaluate_accumulated:
  "\<exists>tr. ai (snd (search_and_evaluate e p i qs st)) = ai st @ tr \<and>
        accumulatedSources (snd (search_and_evaluate e p i qs st)) =
          accumulatedSources st @ search_results e (ai st) tr"
proof (induction e p i qs st rule: search_and_evaluate.induct)
  case (1 e p i qs st)
  show ?case
  proof (cases "i < MAX_ITERATIONS")
    case False
    then have "snd (search_and_evaluate e p i qs st) = st"
      by (simp add: search_and_evaluate.simps [of e p i qs st])
    then have "ai (snd (search_and_evaluate e p i qs st)) = ai st @ [] \<and>
        accumulatedSources (snd (search_and_evaluate e p i qs st)) =
          accumulatedSources st @ search_results e (ai st) []"
      by simp
    then show ?thesis ..
  next
    case True
    note r = iteration_accumulated [of e p i qs st]
    show ?thesis
    proof (cases "iteration e p i qs st")
      case (Throw m s)
      with True r show ?thesis by (simp add: search_and_evaluate.simps [of e p i qs st])
    next
      case (Break s)
      with True r show ?thesis by (simp add: search_and_evaluate.simps [of e p i qs st])
    next
      case (Next qs' s)
      from r Next obtain tr1 where 1: "ai s = ai st @ tr1"
        "accumulatedSources s = accumulatedSources st @ search_results e (ai st) tr1"
        by auto
      from "1.IH" [OF True Next] obtain tr2 where
        2: "ai (snd (search_and_evaluate e p (i + 1) qs' s)) = ai s @ tr2"
        "accumulatedSources (snd (search_and_evaluate e p (i + 1) qs' s)) =
           accumulatedSources s @ search_results e (ai s) tr2"
        by blast
      from True Next have "search_and_evaluate e p i qs st = search_and_evaluate e p (i + 1) qs' s"
        by (simp add: search_and_evaluate.simps [of e p i qs st])
      with 1 2 have "ai (snd (search_and_evaluate e p i qs st)) = ai st @ (tr1 @ tr2) \<and>
        accumulatedSources (snd (search_and_evaluate e p i qs st)) =
          accumulatedSources st @ search_results e (ai st) (tr1 @ tr2)"
        by (simp add: search_results_append)
      then show ?thesis ..
    qed
  qed
qed

lemma runSearchAndEvaluateLoop_accumulated:
  assumes "runSearchAndEvaluateLoop e p st = (r, st')"
  obtains tr where "ai st' = ai st @ tr"
    "accumulatedSources st' = accumulatedSources st @ search_results e (ai st) tr"
proof -
  let ?qs = "concat (map (\<lambda>item. [english_question item, japanese_question item]) p)"
  from assms have 1: "snd (search_and_evaluate e p 0 ?qs st) = st'"
    by (simp add: runSearchAndEvaluateLoop_def Let_def)
  from search_and_evaluate_accumulated [of e p 0 ?qs st] obtain tr where
    "ai (snd (search_and_evaluate e p 0 ?qs st)) = ai st @ tr"
    "accumulatedSources (snd (search_and_evaluate e p 0 ?qs st)) =
       accumulatedSources st @ search_results e (ai st) tr"
    by blast
  then show thesis
    unfolding 1 by (rule that)
qed

lemma handleResearch_accumulated:
  assumes "trim (topic st) \<noteq> []"
  shows "accumulatedSources (handleResearch e st) =
           search_results e (ai st) (drop (length (ai st)) (ai (handleResearch e st)))"
  using assms
proof (cases rule: handleResearch_stages [where e = e])
  case planning_failed
  then show ?thesis by simp
next
  case (loop_failed p m st1 st2)
  from runPlanning_fields(1,3) [of e "topic st" "resetState st"] loop_failed(1)
  have 1: "ai st1 = ai st @ [PlanCall (topic st)]" "accumulatedSources st1 = []"
    by (simp_all add: resetState_fields)
  from loop_failed(2) obtain tr where 2: "ai st2 = ai st1 @ tr"
    "accumulatedSources st2 = accumulatedSources st1 @ search_results e (ai st1) tr"
    by (rule runSearchAndEvaluateLoop_accumulated)
  from 1 2 loop_failed(3,5) show ?thesis
    by (simp add: search_results_append)
next
  case (synthesis p st1 st2)
  from runPlanning_fields(1,3) [of e "topic st" "resetState st"] synthesis(1)
  have 1: "ai st1 = ai st @ [PlanCall (topic st)]" "accumulatedSources st1 = []"
    by (simp_all add: resetState_fields)
  from synthesis(2) obtain tr where 2: "ai st2 = ai st1 @ tr"
    "accumulatedSources st2 = accumulatedSources st1 @ search_results e (ai st1) tr"
    by (rule runSearchAndEvaluateLoop_accumulated)
  from 1 2 synthesis(3,5) show ?thesis
    by (simp add: search_results_append)
qed

section \<open>Where a request sits in a run\<close>

lemma split_append_left:
  assumes "xs @ ys = pre @ c # post" and "length xs \<le> length pre"
  shows "\<exists>pre'. pre = xs @ pre' \<and> ys = pre' @ c # post"
proof -
  from assms(1) obtain us where "xs = pre @ us \<and> us @ ys = c # post \<or> xs @ us = pre \<and> ys = us @ c # post"
    by (auto simp: append_eq_append_conv2)
  then show ?thesis
  proof
    assume a: "xs = pre @ us \<and> us @ ys = c # post"
    with assms(2) have "us = []" by simp
    with a show ?thesis by simp
  next
    assume "xs @ us = pre \<and> ys = us @ c # post"
    then show ?thesis by auto
  qed
qed

lemma split_append_in:
  assumes "xs @ ys = pre @ c # post" and "length pre < length xs"
  shows "c \<in> set xs"
proof -
  from assms(1) obtain us where "xs = pre @ us \<and> us @ ys = c # post \<or> xs @ us = pre \<and> ys = us @ c # post"
    by (auto simp: append_eq_append_conv2)
  then show ?thesis
  proof
    assume a: "xs = pre @ us \<and> us @ ys = c # post"
    with assms(2) have "us \<noteq> []" by auto
    with a show ?thesis by (cases us) auto
  next
    assume "xs @ us = pre \<and> ys = us @ c # post"
    with assms(2) show ?thesis by auto
  qed
qed

text \<open>Where a request made during one iteration sits among the requests of that iteration.\<close>

lemma locate_call:
  assumes eq: "xs @ map SearchCall qs @ E # rf @ tr = pre @ c # post"
    and lo: "length xs \<le> length pre"
    and hi: "length pre < length xs + length qs + 1 + length rf"
    and rf: "rf = [] \<or> (\<exists>u. rf = [RefineCall u])"
  shows "(\<exists>q. c = SearchCall q) \<or>
         (c = E \<and> pre = xs @ map SearchCall qs \<and> post = rf @ tr) \<or>
         (rf = [c] \<and> pre = xs @ map SearchCall qs @ [E] \<and> post = tr)"
proof -
  from split_append_left [OF eq lo] obtain p1
    where p1: "pre = xs @ p1" "map SearchCall qs @ E # rf @ tr = p1 @ c # post"
    by blast
  show ?thesis
  proof (cases "length p1 < length (map SearchCall qs)")
    case True
    from split_append_in [OF p1(2) True] show ?thesis by auto
  next
    case False
    then have "length (map SearchCall qs) \<le> length p1" by simp
    from split_append_left [OF p1(2) this] obtain p2
      where p2: "p1 = map SearchCall qs @ p2" "E # rf @ tr = p2 @ c # post"
      by blast
    show ?thesis
    proof (cases p2)
      case Nil
      with p1 p2 show ?thesis by simp
    next
      case (Cons a p3)
      with p2 have p3: "rf @ tr = p3 @ c # post" and a: "a = E"
        by simp_all
      from hi p1(1) p2(1) Cons have "length p3 < length rf"
        by simp
      with rf obtain u where u: "rf = [RefineCall u]" and "p3 = []"
        by auto
      with p3 p1(1) p2(1) Cons a show ?thesis
        by simp
    qed
  qed
qed

lemma search_and_evaluate_complete:
  assumes "search_and_evaluate e p i qs st = (r, st')"
    and "ai st' = pre @ EvaluateCall pl rs # post"
    and "length (ai st) \<le> length pre"
    and "fst (evaluateCompleteness e pl rs pre) = Inr ev"
    and "is_complete ev"
  shows "post = [] \<and> r = Inr () \<and> rs = accumulatedResults st'"
  using assms
proof (induction e p i qs st arbitrary: r st' rule: search_and_evaluate.induct)
  case (1 e p i qs st)
  show ?case
  proof (cases "i < MAX_ITERATIONS")
    case False
    with "1.prems"(1) have "st' = st"
      by (simp add: search_and_evaluate.simps [of e p i qs st])
    with "1.prems"(2,3) show ?thesis by simp
  next
    case True
    let ?S = "searching e i qs st"
    let ?s = "state_of (iteration e p i qs st)"
    let ?E = "EvaluateCall p (accumulatedResults ?S)"
    have it: "iteration e p i qs st = evaluating e p i ?S"
      by (simp add: iteration_def)
    have R: "accumulatedResults ?s = accumulatedResults ?S"
      by (simp add: it evaluating_fields)
    obtain rf where rf: "ai ?s = ai st @ map SearchCall qs @ ?E # rf"
      "rf = [] \<or> (\<exists>u. rf = [RefineCall u])"
      using iteration_ai [of e p i qs st] unfolding R by blast
    have "prefix (ai ?s) (ai st') \<and> (length pre < length (ai ?s) \<or>
            (\<exists>qs'. iteration e p i qs st = Next qs' ?s \<and> search_and_evaluate e p (i + 1) qs' ?s = (r, st')))"
    proof (cases "iteration e p i qs st")
      case (Throw m s)
      with True "1.prems"(1) have "st' = ?s"
        by (simp add: search_and_evaluate.simps [of e p i qs st])
      with "1.prems"(2) show ?thesis by simp
    next
      case (Break s)
      with True "1.prems"(1) have "st' = ?s"
        by (simp add: search_and_evaluate.simps [of e p i qs st])
      with "1.prems"(2) show ?thesis by simp
    next
      case (Next qs' s)
      with True "1.prems"(1) have rec: "search_and_evaluate e p (i + 1) qs' ?s = (r, st')"
        by (simp add: search_and_evaluate.simps [of e p i qs st])
      with search_and_evaluate_ai [of ?s e p "i + 1" qs'] Next show ?thesis
        by simp
    qed
    then obtain tr where tr: "ai st' = ai ?s @ tr"
      and alt: "length pre < length (ai ?s) \<or>
            (\<exists>qs'. iteration e p i qs st = Next qs' ?s \<and> search_and_evaluate e p (i + 1) qs' ?s = (r, st'))"
      by (auto simp: prefix_def)
    show ?thesis
    proof (cases "length pre < length (ai ?s)")
      case False
      with alt obtain qs' where n: "iteration e p i qs st = Next qs' ?s"
        and rec: "search_and_evaluate e p (i + 1) qs' ?s = (r, st')"
        by blast
      from False have "length (ai ?s) \<le> length pre" by simp
      from "1.IH" [OF True n rec "1.prems"(2) this "1.prems"(4,5)] show ?thesis .
    next
      case inside: True
      from tr rf(1) "1.prems"(2)
      have eq: "ai st @ map SearchCall qs @ ?E # rf @ tr = pre @ EvaluateCall pl rs # post"
        by simp
      from inside rf(1) have hi: "length pre < length (ai st) + length qs + 1 + length rf"
        by simp
      from locate_call [OF eq "1.prems"(3) hi rf(2)] rf(2)
      have loc: "EvaluateCall pl rs = ?E" "pre = ai st @ map SearchCall qs" "post = rf @ tr"
        by auto
      from loc(1) have pl: "pl = p" and rs: "rs = accumulatedResults ?S"
        by simp_all
      from loc(2) have pre: "pre = ai ?S"
        by (simp add: searching_ai)
      from "1.prems"(4) have EV: "fst (evaluateCompleteness e p (accumulatedResults ?S) (ai ?S)) = Inr ev"
        by (simp add: pl rs pre)
      from "1.prems"(5) have "is_complete ev \<or> Suc i = MAX_ITERATIONS" ..
      note stop = evaluating_stop [OF EV this, folded it]
      from stop(1) True "1.prems"(1) have out: "r = Inr ()" "st' = ?s"
        by (simp_all add: search_and_evaluate.simps [of e p i qs st] split: completion.splits)
      from stop(2) rf(1) have "rf = []"
        by (simp add: searching_ai)
      moreover from out(2) tr have "tr = []"
        by simp
      ultimately show ?thesis
        using loc(3) out rs R by simp
    qed
  qed
qed

lemma split_append_right:
  assumes "xs @ ys = pre @ c # post" and "length pre < length xs"
  shows "\<exists>post'. xs = pre @ c # post' \<and> post = post' @ ys"
proof -
  from assms(1) obtain us where "xs = pre @ us \<and> us @ ys = c # post \<or> xs @ us = pre \<and> ys = us @ c # post"
    by (auto simp: append_eq_append_conv2)
  then show ?thesis
  proof
    assume a: "xs = pre @ us \<and> us @ ys = c # post"
    with assms(2) have "us \<noteq> []" by auto
    with a show ?thesis by (cases us) auto
  next
    assume "xs @ us = pre \<and> ys = us @ c # post"
    with assms(2) show ?thesis by auto
  qed
qed

lemma runSearchAndEvaluateLoop_ai:
  "prefix (ai st) (ai (snd (runSearchAndEvaluateLoop e p st)))"
  unfolding runSearchAndEvaluateLoop_def Let_def by (rule search_and_evaluate_ai)

lemma search_and_evaluate_refine:
  assumes "search_and_evaluate e p i qs st = (r, st')"
    and "ai st' = pre @ RefineCall u # post"
    and "length (ai st) \<le> length pre"
  shows "(\<exists>pre0 pl rs ev. pre = pre0 @ [EvaluateCall pl rs] \<and>
            fst (evaluateCompleteness e pl rs pre0) = Inr ev \<and> \<not> is_complete ev \<and>
            u = unanswered_questions ev) \<and>
         rounds pre + i < rounds (ai st) + MAX_ITERATIONS \<and>
         (fst (refineSearchQueries e u pre) = Inr [] \<longrightarrow> post = [] \<and> r = Inr ())"
  using assms
proof (induction e p i qs st arbitrary: r st' rule: search_and_evaluate.induct)
  case (1 e p i qs st)
  show ?case
  proof (cases "i < MAX_ITERATIONS")
    case False
    with "1.prems"(1) have "st' = st"
      by (simp add: search_and_evaluate.simps [of e p i qs st])
    with "1.prems"(2,3) show ?thesis by simp
  next
    case True
    let ?S = "searching e i qs st"
    let ?s = "state_of (iteration e p i qs st)"
    let ?E = "EvaluateCall p (accumulatedResults ?S)"
    have it: "iteration e p i qs st = evaluating e p i ?S"
      by (simp add: iteration_def)
    have R: "accumulatedResults ?s = accumulatedResults ?S"
      by (simp add: it evaluating_fields)
    obtain rf where rf: "ai ?s = ai st @ map SearchCall qs @ ?E # rf"
      "rf = [] \<or> (\<exists>u. rf = [RefineCall u])"
      using iteration_ai [of e p i qs st] unfolding R by blast
    have "prefix (ai ?s) (ai st') \<and> (length pre < length (ai ?s) \<or>
            (\<exists>qs'. iteration e p i qs st = Next qs' ?s \<and> search_and_evaluate e p (i + 1) qs' ?s = (r, st')))"
    proof (cases "iteration e p i qs st")
      case (Throw m s)
      with True "1.prems"(1) have "st' = ?s"
        by (simp add: search_and_evaluate.simps [of e p i qs st])
      with "1.prems"(2) show ?thesis by simp
    next
      case (Break s)
      with True "1.prems"(1) have "st' = ?s"
        by (simp add: search_and_evaluate.simps [of e p i qs st])
      with "1.prems"(2) show ?thesis by simp
    next
      case (Next qs' s)
      with True "1.prems"(1) have rec: "search_and_evaluate e p (i + 1) qs' ?s = (r, st')"
        by (simp add: search_and_evaluate.simps [of e p i qs st])
      with search_and_evaluate_ai [of ?s e p "i + 1" qs'] Next show ?thesis
        by simp
    qed
    then obtain tr where tr: "ai st' = ai ?s @ tr"
      and alt: "length pre < length (ai ?s) \<or>
            (\<exists>qs'. iteration e p i qs st = Next qs' ?s \<and> search_and_evaluate e p (i + 1) qs' ?s = (r, st'))"
      by (auto simp: prefix_def)
    show ?thesis
    proof (cases "length pre < length (ai ?s)")
      case False
      with alt obtain qs' where n: "iteration e p i qs st = Next qs' ?s"
        and rec: "search_and_evaluate e p (i + 1) qs' ?s = (r, st')"
        by blast
      from False have "length (ai ?s) \<le> length pre" by simp
      from "1.IH" [OF True n rec "1.prems"(2) this] iteration_rounds [of e p i qs st]
      show ?thesis by simp
    next
      case inside: True
      from tr rf(1) "1.prems"(2)
      have eq: "ai st @ map SearchCall qs @ ?E # rf @ tr = pre @ RefineCall u # post"
        by simp
      from inside rf(1) have hi: "length pre < length (ai st) + length qs + 1 + length rf"
        by simp
      from locate_call [OF eq "1.prems"(3) hi rf(2)]
      have loc: "rf = [RefineCall u]" "pre = ai st @ map SearchCall qs @ [?E]" "post = tr"
        by auto
      from loc(2) have pre: "pre = ai ?S @ [?E]"
        by (simp add: searching_ai)
      from loc(1) rf(1) have ais: "ai ?s = ai ?S @ [?E, RefineCall u]"
        by (simp add: searching_ai)
      show ?thesis
      proof (cases "fst (evaluateCompleteness e p (accumulatedResults ?S) (ai ?S))")
        case (Inl m)
        from evaluating_eval_failed(2) [OF Inl, of i, folded it] ais show ?thesis
          by simp
      next
        case (Inr ev)
        show ?thesis
        proof (cases "is_complete ev \<or> Suc i = MAX_ITERATIONS")
          case stop: True
          from evaluating_stop(2) [OF Inr stop, folded it] ais show ?thesis
            by simp
        next
          case go: False
          then have nc: "\<not> is_complete ev" and ni: "Suc i \<noteq> MAX_ITERATIONS"
            by simp_all
          note ref = evaluating_refine [OF Inr nc ni, folded it]
          from ref(1) ais have u: "u = unanswered_questions ev"
            by simp
          have 1: "\<exists>pre0 pl rs ev. pre = pre0 @ [EvaluateCall pl rs] \<and>
                     fst (evaluateCompleteness e pl rs pre0) = Inr ev \<and> \<not> is_complete ev \<and>
                     u = unanswered_questions ev"
            using pre Inr nc u by blast
          from pre have "rounds pre = Suc (rounds (ai st))"
            by (simp add: searching_ai rounds_append rounds_searches) (simp add: rounds_def)
          with True ni have 2: "rounds pre + i < rounds (ai st) + MAX_ITERATIONS"
            by simp
          have 3: "post = [] \<and> r = Inr ()" if "fst (refineSearchQueries e u pre) = Inr []"
          proof -
            from that ref(2) have "iteration e p i qs st = Break ?s"
              by (simp add: u pre)
            with True "1.prems"(1) have "r = Inr ()" "st' = ?s"
              by (simp_all add: search_and_evaluate.simps [of e p i qs st] split: completion.splits)
            with tr loc(3) show ?thesis by simp
          qed
          from 1 2 3 show ?thesis by blast
        qed
      qed
    qed
  qed
qed

text \<open>
  A request of a run that is neither the planning nor the synthesis request was made by the
  loop; what follows it in the run is what followed it in the loop, and then the synthesis
  request if the loop ended normally.
\<close>

lemma handleResearch_loop_call:
  assumes "ai (handleResearch e st) = pre @ c # post" and "length (ai st) \<le> length pre"
    and "\<And>t. c \<noteq> PlanCall t" and "\<And>t r. c \<noteq> SynthesizeCall t r"
  obtains p st1 r st2 post' where
    "runSearchAndEvaluateLoop e p st1 = (r, st2)" "ai st2 = pre @ c # post'"
    "length (ai st1) \<le> length pre" "rounds (ai st1) = rounds (ai st)"
    "accumulatedResults (handleResearch e st) = accumulatedResults st2"
    "post = post' @ (case r of Inl m \<Rightarrow> [] | Inr v \<Rightarrow> [SynthesizeCall (topic st) (accumulatedResults st2)])"
proof -
  have topic: "trim (topic st) \<noteq> []"
  proof
    assume "trim (topic st) = []"
    with assms(1,2) show False by (simp add: handleResearch_idle)
  qed
  have plan_first: "length (ai st1) \<le> length pre \<and> rounds (ai st1) = rounds (ai st)"
    if 1: "runPlanning e (topic st) (resetState st) = (Inr p, st1)"
      and 2: "prefix (ai st1) (pre @ c # post)" for p st1
  proof -
    from runPlanning_fields(1) [of e "topic st" "resetState st"] 1
    have a: "ai st1 = ai st @ [PlanCall (topic st)]"
      by (simp add: resetState_fields)
    with 2 obtain tr where "ai st @ [PlanCall (topic st)] @ tr = pre @ c # post"
      by (auto simp: prefix_def)
    from split_append_left [OF this assms(2)] obtain p1
      where "pre = ai st @ p1" "[PlanCall (topic st)] @ tr = p1 @ c # post"
      by blast
    with assms(3) [of "topic st"] a show ?thesis
      by (cases p1) (simp_all add: rounds_def)
  qed
  from topic show thesis
  proof (cases rule: handleResearch_stages [where e = e])
    case planning_failed
    with assms(1) have "ai st @ [PlanCall (topic st)] = pre @ c # post"
      by simp
    from split_append_left [OF this assms(2)] assms(3) [of "topic st"] show thesis
      by (auto simp: Cons_eq_append_conv)
  next
    case (loop_failed p m st1 st2)
    from loop_failed(3) assms(1) have a: "ai st2 = pre @ c # post"
      by simp
    from loop_failed(2) have "prefix (ai st1) (ai st2)"
      using runSearchAndEvaluateLoop_ai [of st1 e p] by simp
    with a plan_first [OF loop_failed(1)] loop_failed(2,4) show thesis
      by (intro that [of p st1 "Inl m" st2 post]) simp_all
  next
    case (synthesis p st1 st2)
    let ?syn = "SynthesizeCall (topic st) (accumulatedResults st2)"
    from synthesis(3) assms(1) have a: "ai st2 @ [?syn] = pre @ c # post"
      by simp
    have inside: "length pre < length (ai st2)"
    proof (rule ccontr)
      assume "\<not> length pre < length (ai st2)"
      then have "length (ai st2) \<le> length pre" by simp
      from split_append_left [OF a this] assms(4) show False
        by (auto simp: Cons_eq_append_conv)
    qed
    from split_append_right [OF a inside] obtain post'
      where b: "ai st2 = pre @ c # post'" "post = post' @ [?syn]"
      by blast
    from synthesis(2) have "prefix (ai st1) (ai st2)"
      using runSearchAndEvaluateLoop_ai [of st1 e p] by simp
    then have "prefix (ai st1) (pre @ c # post)"
      unfolding a [symmetric] by (rule prefix_order.trans) simp
    from plan_first [OF synthesis(1) this] b synthesis(2,4) show thesis
      by (intro that [of p st1 "Inr ()" st2 post']) simp_all
  qed
qed

section \<open>The example run\<close>

lemmas run_defs = handleResearch_def runPlanning_def runSearchAndEvaluateLoop_def runSynthesis_def
  research_failed_def resetState_def addLog_def setStage_def iteration_def searching_def evaluating_def
  search_query_def search_and_evaluate.simps MAX_ITERATIONS_def
  generateResearchPlan_def searchWithGrounding_def evaluateCompleteness_def refineSearchQueries_def
  synthesizeReport_def ai_generateContent_def parseJson_def trim_def isWhiteSpace_def replaceAll.simps
  uniqueSources_def new_Map_def Map_values_def chunk_to_source_def or_default_def str_def Let_def
  example_env_def example_state_def example_item_def example_chunks_def example_chunks_e_def
  example_chunks_j_def example_refined_def
  example_incomplete_def example_complete_def example_results1_def example_results2_def

text \<open>
  The whole run on the topic \<open>t\<close> against the example model: two iterations, one failed
  search, one refinement, then the report.
\<close>

lemma example_run:
  "handleResearch (example_env 4 example_refined) example_state =
     \<lparr>topic = [], stage = COMPLETE,
      report = Some \<lparr>report_title = str ''T'', summary = str ''S'', sections = []\<rparr>,
      sources = [\<lparr>uri = str ''u1'', title = str ''C''\<rparr>, \<lparr>uri = str ''u2'', title = str ''E''\<rparr>,
                 \<lparr>uri = str ''u3'', title = str ''D''\<rparr>],
      error = None, plan = [example_item],
      progressLog =
        [str ''Phase 1: Planning research...'',
         str ''Plan created with 1 key questions.'',
         str [CHR 0x0A] @ str ''--- Iteration 1 of 3 ---'',
         str ''Searching the web with 2 queries...'',
         str ''Searching for: \"q\"'',
         str ''Searching for: \"Q\"'',
         str ''Warning: Failed to search for \"Q\". Reason: Failed to search the web for: \"Q\".. Continuing...'',
         str ''Evaluating collected information for completeness...'',
         str ''Evaluation complete. Reasoning: r'',
         str ''Information is incomplete. Refining search for 1 topics.'',
         str [CHR 0x0A] @ str ''--- Iteration 2 of 3 ---'',
         str ''Searching the web with 2 queries...'',
         str ''Searching for: \"e\"'',
         str ''Searching for: \"j\"'',
         str ''Evaluating collected information for completeness...'',
         str ''Evaluation complete. Reasoning: r'',
         str ''Information is sufficient. Proceeding to synthesis.'',
         str [CHR 0x0A] @ str ''Phase 4: Synthesizing final report...'',
         str ''Report synthesized successfully!''],
      accumulatedResults = example_results2,
      accumulatedSources =
        [\<lparr>uri = str ''u1'', title = str ''B''\<rparr>, \<lparr>uri = str ''u2'', title = str ''Untitled Source''\<rparr>,
         \<lparr>uri = str ''u1'', title = str ''C''\<rparr>,
         \<lparr>uri = str ''u3'', title = str ''D''\<rparr>, \<lparr>uri = str ''u2'', title = str ''E''\<rparr>],
      ai = [PlanCall (str ''t''), SearchCall (str ''q''), SearchCall (str ''Q''),
            EvaluateCall [example_item] example_results1, RefineCall [str ''q''],
            SearchCall (str ''e''), SearchCall (str ''j''),
            EvaluateCall [example_item] example_results2,
            SynthesizeCall (str ''t'') example_results2]\<rparr>"
  by (simp add: run_defs)

text \<open>The same run when the refinement answers with no query at all.\<close>

lemma example_run_unrefined:
  "ai (handleResearch (example_env 4 []) example_state) =
     [PlanCall (str ''t''), SearchCall (str ''q''), SearchCall (str ''Q''),
      EvaluateCall [example_item] example_results1, RefineCall [str ''q''],
      SynthesizeCall (str ''t'') example_results1]"
  by (simp add: run_defs)

lemma example_search:
  "searchWithGrounding (example_env 4 example_refined) (str ''q'') [] =
     (Inr (str ''found'', [\<lparr>uri = str ''u1'', title = str ''B''\<rparr>,
                           \<lparr>uri = str ''u2'', title = str ''Untitled Source''\<rparr>]),
      [SearchCall (str ''q'')])"
  by (simp add: run_defs)

lemma example_plan:
  "generateResearchPlan (example_env 4 example_refined) (str ''t'') [] =
     (Inr [example_item], [PlanCall (str ''t'')])"
  by (simp add: run_defs)

section \<open>The claims\<close>

text \<open>
  C1. A research run makes at most 3 rounds of (search all queries, evaluate): whatever the
  remote model answers, the loop \<open>runSearchAndEvaluateLoop\<close> adds at most 3 evaluation
  requests to those made before it, and so does the whole run \<open>handleResearch\<close>. Each pass
  through the loop body makes exactly one evaluation request (lemma \<open>iteration_rounds\<close>).
\<close>

theorem at_most_three_rounds:
  "rounds (ai (snd (runSearchAndEvaluateLoop e p st))) \<le> rounds (ai st) + 3 \<and>
   rounds (ai (handleResearch e st)) \<le> rounds (ai st) + 3"
  using runSearchAndEvaluateLoop_rounds [of e p st] handleResearch_rounds [of e st]
  by (simp add: MAX_ITERATIONS_def)

text \<open>
  C2. After a run (one that passed the empty-topic guard), the accumulated sources are the
  results of the run's search requests, in the order of the requests; the source list shown
  has no two entries with the same uri; and the entry (hence the title) kept for a uri is
  the last one with that uri in that sequence of search results.
\<close>

theorem sources_unique_last_wins:
  assumes "trim (topic st) \<noteq> []"
  shows "accumulatedSources (handleResearch e st) =
           search_results e (ai st) (drop (length (ai st)) (ai (handleResearch e st))) \<and>
         distinct (map uri (sources (handleResearch e st))) \<and>
         (\<forall>u. find (\<lambda>s. uri s = u) (sources (handleResearch e st)) =
              find (\<lambda>s. uri s = u)
                (rev (search_results e (ai st) (drop (length (ai st)) (ai (handleResearch e st))))))"
proof -
  note acc = handleResearch_accumulated [OF assms, of e]
  note src = handleResearch_sources [OF assms, of e]
  have "distinct (map uri (sources (handleResearch e st)))"
    unfolding src by (rule uniqueSources_distinct)
  moreover have "find (\<lambda>s. uri s = u) (sources (handleResearch e st)) =
      find (\<lambda>s. uri s = u)
        (rev (search_results e (ai st) (drop (length (ai st)) (ai (handleResearch e st)))))" for u
    unfolding src acc [symmetric] by (rule uniqueSources_last_wins)
  ultimately show ?thesis
    using acc by blast
qed

theorem sources_unique_last_wins_witness:
  "trim (topic example_state) \<noteq> [] \<and>
   search_results (example_env 4 example_refined) (ai example_state)
     (drop (length (ai example_state)) (ai (handleResearch (example_env 4 example_refined) example_state))) =
     [\<lparr>uri = str ''u1'', title = str ''B''\<rparr>, \<lparr>uri = str ''u2'', title = str ''Untitled Source''\<rparr>,
      \<lparr>uri = str ''u1'', title = str ''C''\<rparr>,
      \<lparr>uri = str ''u3'', title = str ''D''\<rparr>, \<lparr>uri = str ''u2'', title = str ''E''\<rparr>] \<and>
   sources (handleResearch (example_env 4 example_refined) example_state) =
     [\<lparr>uri = str ''u1'', title = str ''C''\<rparr>, \<lparr>uri = str ''u2'', title = str ''E''\<rparr>,
      \<lparr>uri = str ''u3'', title = str ''D''\<rparr>] \<and>
   distinct (map uri (sources (handleResearch (example_env 4 example_refined) example_state))) \<and>
   (\<forall>u. find (\<lambda>s. uri s = u) (sources (handleResearch (example_env 4 example_refined) example_state)) =
        find (\<lambda>s. uri s = u)
          (rev (search_results (example_env 4 example_refined) (ai example_state)
             (drop (length (ai example_state))
                (ai (handleResearch (example_env 4 example_refined) example_state))))))"
proof -
  let ?run = "handleResearch (example_env 4 example_refined) example_state"
  let ?results = "search_results (example_env 4 example_refined) (ai example_state)
     (drop (length (ai example_state)) (ai ?run))"
  have 1: "trim (topic example_state) \<noteq> []"
    by (simp add: example_state_def trim_def isWhiteSpace_def str_def)
  from sources_unique_last_wins [OF 1, of "example_env 4 example_refined"]
  have a: "accumulatedSources ?run = ?results"
    and b: "distinct (map uri (sources ?run))"
    and c: "\<forall>u. find (\<lambda>s. uri s = u) (sources ?run) = find (\<lambda>s. uri s = u) (rev ?results)"
    by blast+
  have "accumulatedSources ?run =
     [\<lparr>uri = str ''u1'', title = str ''B''\<rparr>, \<lparr>uri = str ''u2'', title = str ''Untitled Source''\<rparr>,
      \<lparr>uri = str ''u1'', title = str ''C''\<rparr>,
      \<lparr>uri = str ''u3'', title = str ''D''\<rparr>, \<lparr>uri = str ''u2'', title = str ''E''\<rparr>]"
    by (simp add: example_run)
  with a [symmetric] have 2: "?results =
     [\<lparr>uri = str ''u1'', title = str ''B''\<rparr>, \<lparr>uri = str ''u2'', title = str ''Untitled Source''\<rparr>,
      \<lparr>uri = str ''u1'', title = str ''C''\<rparr>,
      \<lparr>uri = str ''u3'', title = str ''D''\<rparr>, \<lparr>uri = str ''u2'', title = str ''E''\<rparr>]"
    by (rule trans)
  have 3: "sources ?run =
     [\<lparr>uri = str ''u1'', title = str ''C''\<rparr>, \<lparr>uri = str ''u2'', title = str ''E''\<rparr>,
      \<lparr>uri = str ''u3'', title = str ''D''\<rparr>]"
    by (simp add: example_run)
  from 1 2 3 b c show ?thesis
    by (intro conjI)
qed

text \<open>
  C3. If, in a run, the evaluation request made after the requests \<open>pre\<close> is answered with
  \<open>is_complete = true\<close>, then the only request the run makes after it is the synthesis
  request: no search (and no refinement) follows.
\<close>

theorem complete_evaluation_ends_search:
  assumes "ai (handleResearch e st) = pre @ EvaluateCall pl rs # post"
    and "length (ai st) \<le> length pre"
    and "fst (evaluateCompleteness e pl rs pre) = Inr ev"
    and "is_complete ev"
  shows "post = [SynthesizeCall (topic st) rs]"
proof -
  from assms(1,2) obtain p st1 r st2 post' where
    loop: "runSearchAndEvaluateLoop e p st1 = (r, st2)" "ai st2 = pre @ EvaluateCall pl rs # post'"
      "length (ai st1) \<le> length pre"
    and post: "post = post' @ (case r of Inl m \<Rightarrow> [] | Inr v \<Rightarrow> [SynthesizeCall (topic st) (accumulatedResults st2)])"
    by (rule handleResearch_loop_call) simp_all
  from loop(1) have "search_and_evaluate e p 0
      (concat (map (\<lambda>item. [english_question item, japanese_question item]) p)) st1 = (r, st2)"
    by (simp add: runSearchAndEvaluateLoop_def Let_def)
  from search_and_evaluate_complete [OF this loop(2,3) assms(3,4)] post show ?thesis
    by simp
qed

theorem complete_evaluation_ends_search_witness:
  "ai (handleResearch (example_env 4 example_refined) example_state) =
     [PlanCall (str ''t''), SearchCall (str ''q''), SearchCall (str ''Q''),
      EvaluateCall [example_item] example_results1, RefineCall [str ''q''],
      SearchCall (str ''e''), SearchCall (str ''j'')] @
     EvaluateCall [example_item] example_results2 # [SynthesizeCall (str ''t'') example_results2] \<and>
   fst (evaluateCompleteness (example_env 4 example_refined) [example_item] example_results2
     [PlanCall (str ''t''), SearchCall (str ''q''), SearchCall (str ''Q''),
      EvaluateCall [example_item] example_results1, RefineCall [str ''q''],
      SearchCall (str ''e''), SearchCall (str ''j'')]) = Inr example_complete \<and>
   is_complete example_complete \<and>
   [SynthesizeCall (str ''t'') example_results2] = [SynthesizeCall (topic example_state) example_results2]"
proof -
  let ?pre = "[PlanCall (str ''t''), SearchCall (str ''q''), SearchCall (str ''Q''),
      EvaluateCall [example_item] example_results1, RefineCall [str ''q''],
      SearchCall (str ''e''), SearchCall (str ''j'')]"
  have 1: "ai (handleResearch (example_env 4 example_refined) example_state) =
      ?pre @ EvaluateCall [example_item] example_results2 # [SynthesizeCall (str ''t'') example_results2]"
    by (simp add: example_run)
  have 2: "length (ai example_state) \<le> length ?pre"
    by (simp add: example_state_def)
  have 3: "fst (evaluateCompleteness (example_env 4 example_refined) [example_item] example_results2 ?pre) =
      Inr example_complete"
    by (simp add: evaluateCompleteness_def ai_generateContent_def parseJson_def trim_def
        isWhiteSpace_def replaceAll.simps str_def example_env_def)
  have 4: "is_complete example_complete"
    by (simp add: example_complete_def)
  from complete_evaluation_ends_search [OF 1 2 3 4] 1 3 4 show ?thesis
    by simp
qed

text \<open>
  C4. A refinement request of a run comes directly after an evaluation request that was
  answered with \<open>is_complete = false\<close>, for the questions that evaluation left unanswered,
  and fewer than 3 evaluations of this run precede it (it is never made in the third
  iteration). If it is answered with the empty list, the only request the run makes after
  it is the synthesis request.
\<close>

theorem refinement_only_when_incomplete:
  assumes "ai (handleResearch e st) = pre @ RefineCall u # post"
    and "length (ai st) \<le> length pre"
  shows "(\<exists>pre0 pl rs ev. pre = pre0 @ [EvaluateCall pl rs] \<and>
            fst (evaluateCompleteness e pl rs pre0) = Inr ev \<and> \<not> is_complete ev \<and>
            u = unanswered_questions ev) \<and>
         rounds pre < rounds (ai st) + 3 \<and>
         (fst (refineSearchQueries e u pre) = Inr [] \<longrightarrow>
            post = [SynthesizeCall (topic st) (accumulatedResults (handleResearch e st))])"
proof -
  from assms(1,2) obtain p st1 r st2 post' where
    loop: "runSearchAndEvaluateLoop e p st1 = (r, st2)" "ai st2 = pre @ RefineCall u # post'"
      "length (ai st1) \<le> length pre"
    and rounds: "rounds (ai st1) = rounds (ai st)"
    and results: "accumulatedResults (handleResearch e st) = accumulatedResults st2"
    and post: "post = post' @ (case r of Inl m \<Rightarrow> [] | Inr v \<Rightarrow> [SynthesizeCall (topic st) (accumulatedResults st2)])"
    by (rule handleResearch_loop_call) simp_all
  from loop(1) have "search_and_evaluate e p 0
      (concat (map (\<lambda>item. [english_question item, japanese_question item]) p)) st1 = (r, st2)"
    by (simp add: runSearchAndEvaluateLoop_def Let_def)
  from search_and_evaluate_refine [OF this loop(2,3)] rounds results post show ?thesis
    by (auto simp: MAX_ITERATIONS_def)
qed

theorem refinement_only_when_incomplete_witness:
  "ai (handleResearch (example_env 4 []) example_state) =
     [PlanCall (str ''t''), SearchCall (str ''q''), SearchCall (str ''Q''),
      EvaluateCall [example_item] example_results1] @
     RefineCall [str ''q''] # [SynthesizeCall (str ''t'') example_results1] \<and>
   fst (refineSearchQueries (example_env 4 []) [str ''q'']
     [PlanCall (str ''t''), SearchCall (str ''q''), SearchCall (str ''Q''),
      EvaluateCall [example_item] example_results1]) = Inr [] \<and>
   rounds [PlanCall (str ''t''), SearchCall (str ''q''), SearchCall (str ''Q''),
      EvaluateCall [example_item] example_results1] < rounds (ai example_state) + 3 \<and>
   [SynthesizeCall (str ''t'') example_results1] =
     [SynthesizeCall (topic example_state) (accumulatedResults (handleResearch (example_env 4 []) example_state))]"
proof -
  let ?pre = "[PlanCall (str ''t''), SearchCall (str ''q''), SearchCall (str ''Q''),
      EvaluateCall [example_item] example_results1]"
  have 1: "ai (handleResearch (example_env 4 []) example_state) =
      ?pre @ RefineCall [str ''q''] # [SynthesizeCall (str ''t'') example_results1]"
    by (simp add: example_run_unrefined)
  have 2: "length (ai example_state) \<le> length ?pre"
    by (simp add: example_state_def)
  have 3: "fst (refineSearchQueries (example_env 4 []) [str ''q''] ?pre) = Inr []"
    by (simp add: refineSearchQueries_def ai_generateContent_def parseJson_def trim_def
        isWhiteSpace_def replaceAll.simps str_def example_env_def)
  from refinement_only_when_incomplete [OF 1 2]
  have 4: "rounds ?pre < rounds (ai example_state) + 3"
    and 5: "fst (refineSearchQueries (example_env 4 []) [str ''q''] ?pre) = Inr [] \<longrightarrow>
      [SynthesizeCall (str ''t'') example_results1] =
      [SynthesizeCall (topic example_state) (accumulatedResults (handleResearch (example_env 4 []) example_state))]"
    by blast+
  from 5 3 have "[SynthesizeCall (str ''t'') example_results1] =
      [SynthesizeCall (topic example_state) (accumulatedResults (handleResearch (example_env 4 []) example_state))]"
    by (rule mp)
  with 1 3 4 show ?thesis
    by (intro conjI)
qed

text \<open>
  C5. \<open>handleSend\<close> never throws to its caller. When it passes its guard and the remote send
  fails, the transcript gets the user's message followed by the fixed apology as a message
  of the model, and the loading flag is cleared.
\<close>

theorem chat_failure_gives_apology:
  "fst (handleSend sendMessage rendered st) = Inr () \<and>
   (chatRef st = Some chat \<and> trim (input rendered) \<noteq> [] \<and> \<not> isLoading rendered \<and>
    sendMessage (length (sent chat)) (input rendered) = Inl err \<longrightarrow>
      history (snd (handleSend sendMessage rendered st)) =
        history st @ [\<lparr>role = user, message_text = input rendered\<rparr>,
                      \<lparr>role = model, message_text = apology\<rparr>] \<and>
      \<not> isLoading (snd (handleSend sendMessage rendered st)))"
proof -
  have "fst (handleSend_settle reply s) = Inr ()" for reply s
    by (simp add: handleSend_settle_def Let_def)
  then have "fst (handleSend sendMessage rendered st) = Inr ()"
    by (simp add: handleSend_def split: prod.splits option.splits)
  then show ?thesis
    by (simp add: handleSend_def handleSend_start_def handleSend_settle_def Let_def)
qed

theorem chat_failure_gives_apology_witness:
  "chatRef example_chat = Some \<lparr>sent = []\<rparr> \<and> trim (input example_chat) \<noteq> [] \<and>
   \<not> isLoading example_chat \<and> example_offline (length (sent \<lparr>sent = []\<rparr>)) (input example_chat) = Inl (str ''offline'') \<and>
   handleSend example_offline example_chat example_chat =
     (Inr (), \<lparr>history = [\<lparr>role = user, message_text = str ''hi''\<rparr>,
                           \<lparr>role = model, message_text = apology\<rparr>],
               input = [], isLoading = False, chatRef = Some \<lparr>sent = [str ''hi'']\<rparr>\<rparr>)"
proof -
  have 1: "chatRef example_chat = Some \<lparr>sent = []\<rparr>"
    by (simp add: example_chat_def)
  have 2: "trim (input example_chat) \<noteq> []"
    by (simp add: example_chat_def trim_def isWhiteSpace_def str_def)
  have 3: "\<not> isLoading example_chat"
    by (simp add: example_chat_def)
  have 4: "example_offline (length (sent \<lparr>sent = []\<rparr>)) (input example_chat) = Inl (str ''offline'')"
    by (simp add: example_offline_def)
  have 5: "chatRef (snd (handleSend example_offline example_chat example_chat)) = Some \<lparr>sent = [str ''hi'']\<rparr>"
    "input (snd (handleSend example_offline example_chat example_chat)) = []"
    using 2 by (simp_all add: handleSend_def handleSend_start_def handleSend_settle_def Let_def
        example_chat_def example_offline_def)
  from chat_failure_gives_apology
    [of example_offline example_chat example_chat "\<lparr>sent = []\<rparr>" "str ''offline''"] 1 2 3 4
  have 6: "fst (handleSend example_offline example_chat example_chat) = Inr ()"
    "history (snd (handleSend example_offline example_chat example_chat)) =
       history example_chat @ [\<lparr>role = user, message_text = input example_chat\<rparr>,
                               \<lparr>role = model, message_text = apology\<rparr>]"
    "\<not> isLoading (snd (handleSend example_offline example_chat example_chat))"
    by blast+
  from 5 6 have
    "handleSend example_offline example_chat example_chat =
     (Inr (), \<lparr>history = [\<lparr>role = user, message_text = str ''hi''\<rparr>,
                           \<lparr>role = model, message_text = apology\<rparr>],
               input = [], isLoading = False, chatRef = Some \<lparr>sent = [str ''hi'']\<rparr>\<rparr>)"
    by (cases "handleSend example_offline example_chat example_chat") (simp add: example_chat_def)
  with 1 2 3 4 show ?thesis
    by simp
qed




text \<open>
  C7, as the specification states it, fails: a successful call of \<open>generateResearchPlan\<close> can
  return a plan of one item.
\<close>

theorem plan_length_counterexample:
  "generateResearchPlan (example_env 4 example_refined) (str ''t'') [] =
     (Inr [example_item], [PlanCall (str ''t'')]) \<and>
   \<not> (3 \<le> length [example_item] \<and> length [example_item] \<le> 5)"
  by (simp add: example_plan)

text \<open>
  C7, amended. A successful call of \<open>generateResearchPlan\<close> returns the list found under
  \<open>plan\<close> in the parsed answer of the model, as it is; nothing bounds its length (the range
  3 to 5 is asked for in the system instruction only).
\<close>

theorem plan_is_the_models_list:
  assumes "generateResearchPlan e t cs = (Inr p, cs')"
  shows "\<exists>response result.
           generateContent e (length cs) (PlanCall t) = Inr response \<and>
           parseJson (JSON_parse_plan e) (response_text response) = Some result \<and>
           result_plan result = Some p"
  using assms
  by (auto simp: generateResearchPlan_def ai_generateContent_def Let_def
      split: sum.splits option.splits)

theorem plan_is_the_models_list_witness:
  "\<exists>response result.
     generateContent (example_env 4 example_refined) (length ([] :: call list)) (PlanCall (str ''t'')) = Inr response \<and>
     parseJson (JSON_parse_plan (example_env 4 example_refined)) (response_text response) = Some result \<and>
     result_plan result = Some [example_item]"
  by (rule plan_is_the_models_list [OF example_plan])





text \<open>
  C10. Every source returned by a successful \<open>searchWithGrounding\<close> has a non-empty uri and
  a non-empty title: it comes from a grounding chunk of the response whose uri is present
  (and is the source's uri, so not empty), and its title is the chunk's title, or
  \<open>Untitled Source\<close> when the chunk has none or an empty one.
\<close>

theorem search_sources_have_uri_and_title:
  assumes "searchWithGrounding e q cs = (Inr (t, ss), cs')" and "s \<in> set ss"
  shows "uri s \<noteq> [] \<and> title s \<noteq> [] \<and>
         (\<exists>response chunks chunk.
            generateContent e (length cs) (SearchCall q) = Inr response \<and>
            groundingChunks response = Some chunks \<and> chunk \<in> set chunks \<and>
            Option.bind (web chunk) web_uri = Some (uri s) \<and>
            title s = or_default (Option.bind (web chunk) web_title) (str ''Untitled Source''))"
proof -
  from assms(1) obtain response where
    r: "generateContent e (length cs) (SearchCall q) = Inr response"
    and ss: "ss = uniqueSources (filter (\<lambda>source. uri source \<noteq> [])
               (map chunk_to_source (case groundingChunks response of None \<Rightarrow> [] | Some chunks \<Rightarrow> chunks)))"
    by (auto simp: searchWithGrounding_def ai_generateContent_def Let_def split: sum.splits)
  from assms(2) ss uniqueSources_subset obtain chunks chunk where
    c: "groundingChunks response = Some chunks" "chunk \<in> set chunks" "s = chunk_to_source chunk"
    and u: "uri s \<noteq> []"
    by (cases "groundingChunks response") (fastforce simp: uniqueSources_Nil)+
  from c(3) u have "Option.bind (web chunk) web_uri = Some (uri s)"
    by (auto simp: chunk_to_source_def or_default_def split: option.splits if_splits)
  moreover from c(3) have "title s = or_default (Option.bind (web chunk) web_title) (str ''Untitled Source'')"
    by (simp add: chunk_to_source_def)
  moreover from c(3) have "title s \<noteq> []"
    by (simp add: chunk_to_source_title)
  ultimately show ?thesis
    using r c(1,2) u by blast
qed

theorem search_sources_have_uri_and_title_witness:
  "searchWithGrounding (example_env 4 example_refined) (str ''q'') [] =
     (Inr (str ''found'', [\<lparr>uri = str ''u1'', title = str ''B''\<rparr>,
                           \<lparr>uri = str ''u2'', title = str ''Untitled Source''\<rparr>]),
      [SearchCall (str ''q'')]) \<and>
   uri \<lparr>uri = str ''u2'', title = str ''Untitled Source''\<rparr> \<noteq> [] \<and>
   title \<lparr>uri = str ''u2'', title = str ''Untitled Source''\<rparr> \<noteq> []"
proof -
  have "\<lparr>uri = str ''u2'', title = str ''Untitled Source''\<rparr> \<in>
        set [\<lparr>uri = str ''u1'', title = str ''B''\<rparr>, \<lparr>uri = str ''u2'', title = str ''Untitled Source''\<rparr>]"
    by simp
  from search_sources_have_uri_and_title [OF example_search this]
  have "uri \<lparr>uri = str ''u2'', title = str ''Untitled Source''\<rparr> \<noteq> []"
    "title \<lparr>uri = str ''u2'', title = str ''Untitled Source''\<rparr> \<noteq> []"
    by blast+
  with example_search show ?thesis
    by (intro conjI)
qed

end
